theory Spec2Isabelle
  imports Complex_Main
begin

section \<open>JavaScript values as the dashboard sees them\<close>

text \<open>
  Everything the event store holds comes out of \<^verbatim>\<open>JSON.parse\<close>, so a retained record is an
  untyped JavaScript value. \<open>Undefined\<close> is what reading a missing property gives.
  Numbers are the values \<^verbatim>\<open>JSON.parse\<close> can produce (never NaN), taken as reals.
  An object is its list of properties, the first entry of a name being the one read.
\<close>

datatype jsval =
    Undefined
  | Null
  | Bool bool
  | Number real
  | Str string
  | Array "jsval list"
  | Object "(string \<times> jsval) list"

datatype js_error = TypeError | SyntaxError | SecurityError

text \<open>
  A failure is either an exception thrown to the calling handler, or an exception raised
  while React runs a state updater in its render phase, which no handler of the component
  can catch.
\<close>

datatype failure = Thrown js_error | RenderCrash js_error

text \<open>The truth value JavaScript gives a value in \<^verbatim>\<open>if (v)\<close> and \<^verbatim>\<open>v && w\<close>.\<close>

fun truthy :: "jsval \<Rightarrow> bool" where
  "truthy Undefined = False"
| "truthy Null = False"
| "truthy (Bool b) = b"
| "truthy (Number n) = (n \<noteq> 0)"
| "truthy (Str s) = (s \<noteq> [])"
| "truthy (Array xs) = True"
| "truthy (Object kvs) = True"

text \<open>
  Property read \<^verbatim>\<open>v.k\<close> for the names the dashboard reads (\<^verbatim>\<open>data\<close>,
  \<^verbatim>\<open>sandwich\<close>, \<^verbatim>\<open>slot\<close>, none of them on a built-in prototype): a TypeError on
  \<^verbatim>\<open>undefined\<close> and \<^verbatim>\<open>null\<close>, \<^verbatim>\<open>undefined\<close> on every other value that has no
  such property.
\<close>

fun get_prop :: "string \<Rightarrow> jsval \<Rightarrow> js_error + jsval" where
  "get_prop k Undefined = Inl TypeError"
| "get_prop k Null = Inl TypeError"
| "get_prop k (Object kvs) = (case map_of kvs k of Some v \<Rightarrow> Inr v | None \<Rightarrow> Inr Undefined)"
| "get_prop k v = Inr Undefined"

text \<open>
  Strict equality \<^verbatim>\<open>a === b\<close> between a value of one parsed message and a value of
  another: primitives are compared by value; arrays and objects are compared by identity,
  and two separately parsed values never share one.
\<close>

fun strict_eq :: "jsval \<Rightarrow> jsval \<Rightarrow> bool" where
  "strict_eq Undefined Undefined = True"
| "strict_eq Null Null = True"
| "strict_eq (Bool a) (Bool b) = (a = b)"
| "strict_eq (Number a) (Number b) = (a = b)"
| "strict_eq (Str a) (Str b) = (a = b)"
| "strict_eq a b = False"

text \<open>\<^verbatim>\<open>s.data.sandwich.slot\<close>, with the TypeError of each read.\<close>

definition slot_of :: "jsval \<Rightarrow> js_error + jsval" where
  "slot_of s =
     (case get_prop ''data'' s of
        Inl e \<Rightarrow> Inl e
      | Inr d \<Rightarrow>
          (case get_prop ''sandwich'' d of
             Inl e \<Rightarrow> Inl e
           | Inr w \<Rightarrow> get_prop ''slot'' w))"

text \<open>
  The guard \<^verbatim>\<open>v && v.data && v.data.sandwich\<close> of \<^verbatim>\<open>updateSandwiches\<close> and of
  \<^verbatim>\<open>websocket.onmessage\<close>, read as a condition, with short-circuit evaluation.
\<close>

definition has_sandwich :: "jsval \<Rightarrow> js_error + bool" where
  "has_sandwich v =
     (if \<not> truthy v then Inr False
      else case get_prop ''data'' v of
             Inl e \<Rightarrow> Inl e
           | Inr d \<Rightarrow>
               if \<not> truthy d then Inr False
               else (case get_prop ''sandwich'' d of
                       Inl e \<Rightarrow> Inl e
                     | Inr w \<Rightarrow> Inr (truthy w)))"

section \<open>The event store\<close>

text \<open>
  \<^verbatim>\<open>JSON.parse\<close> is a parameter of the model: a function from the text to the parsed value,
  or to the SyntaxError it throws.
\<close>

type_synonym parser = "string \<Rightarrow> js_error + jsval"

text \<open>A parser given by a finite table of texts and their values; every other text is rejected.\<close>

definition parse_table :: "(string \<times> jsval) list \<Rightarrow> parser" where
  "parse_table tbl s = (case map_of tbl s of Some v \<Rightarrow> Inr v | None \<Rightarrow> Inl SyntaxError)"

text \<open>
  \<^verbatim>\<open>getInitialSandwiches\<close>. The argument \<open>entry\<close> is what
  \<^verbatim>\<open>localStorage.getItem(LOCAL_STORAGE_KEY)\<close> does: it throws, returns \<^verbatim>\<open>null\<close>
  (\<open>None\<close>) or returns the stored text. The body of the \<^verbatim>\<open>try\<close> block returns the
  array it found, or falls through (\<open>None\<close>); the \<^verbatim>\<open>catch\<close> logs and falls through too.
  The result is the array and the number of diagnostics written.
\<close>

definition getInitialSandwiches_try ::
  "parser \<Rightarrow> js_error + string option \<Rightarrow> js_error + jsval list option" where
  "getInitialSandwiches_try parse entry =
     (case entry of
        Inl e \<Rightarrow> Inl e
      | Inr None \<Rightarrow> Inr None
      | Inr (Some storedData) \<Rightarrow>
          if storedData = [] then Inr None
          else (case parse storedData of
                  Inl e \<Rightarrow> Inl e
                | Inr (Array parsedData) \<Rightarrow> Inr (Some (take 50 parsedData))
                | Inr _ \<Rightarrow> Inr None))"

definition getInitialSandwiches ::
  "parser \<Rightarrow> js_error + string option \<Rightarrow> jsval list \<times> nat" where
  "getInitialSandwiches parse entry =
     (case getInitialSandwiches_try parse entry of
        Inl e \<Rightarrow> ([], 1)
      | Inr (Some xs) \<Rightarrow> (xs, 0)
      | Inr None \<Rightarrow> ([], 0))"

text \<open>
  The comparison inside \<^verbatim>\<open>findIndex\<close>:
  \<^verbatim>\<open>s.data.sandwich.slot === newSandwich.data.sandwich.slot\<close>, left operand first.
\<close>

definition slot_match :: "jsval \<Rightarrow> jsval \<Rightarrow> js_error + bool" where
  "slot_match s newSandwich =
     (case slot_of s of
        Inl e \<Rightarrow> Inl e
      | Inr a \<Rightarrow>
          (case slot_of newSandwich of
             Inl e \<Rightarrow> Inl e
           | Inr b \<Rightarrow> Inr (strict_eq a b)))"

text \<open>
  \<^verbatim>\<open>prev.findIndex(s => ...)\<close>: the index of the first retained record with the slot of the
  new one, \<open>-1\<close> when there is none. The callback is not run on an empty array, and not
  beyond the first match.
\<close>

fun findIndex_slot :: "jsval \<Rightarrow> jsval list \<Rightarrow> js_error + int" where
  "findIndex_slot newSandwich [] = Inr (- 1)"
| "findIndex_slot newSandwich (s # rest) =
     (case slot_match s newSandwich of
        Inl e \<Rightarrow> Inl e
      | Inr True \<Rightarrow> Inr 0
      | Inr False \<Rightarrow>
          (case findIndex_slot newSandwich rest of
             Inl e \<Rightarrow> Inl e
           | Inr i \<Rightarrow> Inr (if i = - 1 then - 1 else i + 1)))"

text \<open>
  An array held in React state: its identity as an object and its elements. React compares
  the old and the new state by identity (\<^verbatim>\<open>Object.is\<close>).
\<close>

record jsarray =
  ident :: nat
  elems :: "jsval list"

text \<open>
  The updater passed to \<^verbatim>\<open>setSandwiches\<close>. \<open>fresh\<close> is the identity of the array that
  \<^verbatim>\<open>[newSandwich, ...prev].slice(0, 50)\<close> allocates; a duplicate returns \<open>prev\<close> itself.
\<close>

definition sandwiches_updater :: "jsval \<Rightarrow> nat \<Rightarrow> jsarray \<Rightarrow> js_error + jsarray" where
  "sandwiches_updater newSandwich fresh prev =
     (case findIndex_slot newSandwich (elems prev) of
        Inl e \<Rightarrow> Inl e
      | Inr existingIndex \<Rightarrow>
          if existingIndex = - 1
          then Inr \<lparr>ident = fresh, elems = take 50 (newSandwich # elems prev)\<rparr>
          else Inr prev)"

text \<open>
  The part of the component the store lives in: the \<^verbatim>\<open>sandwiches\<close> state, the supply of
  object identities, the arrays handed to \<^verbatim>\<open>localStorage.setItem\<close> by the saving effect
  (latest first, each already \<^verbatim>\<open>slice(0, 50)\<close>), and the number of \<^verbatim>\<open>console.error\<close>
  diagnostics.
\<close>

record store =
  sandwiches :: jsarray
  next_ident :: nat
  saved :: "jsval list list"
  diagnostics :: nat

text \<open>
  \<^verbatim>\<open>setSandwiches(updater)\<close> followed by React's work: the updater runs on the current
  state; a state identical to the old one changes nothing and leaves the effect with
  dependency \<^verbatim>\<open>[sandwiches]\<close> alone; a new array becomes the state and the effect saves it.
\<close>

definition setSandwiches :: "(nat \<Rightarrow> jsarray \<Rightarrow> js_error + jsarray) \<Rightarrow> store \<Rightarrow> failure + store" where
  "setSandwiches updater st =
     (case updater (next_ident st) (sandwiches st) of
        Inl e \<Rightarrow> Inl (RenderCrash e)
      | Inr next \<Rightarrow>
          if ident next = ident (sandwiches st) then Inr st
          else Inr (st\<lparr>sandwiches := next,
                       next_ident := Suc (next_ident st),
                       saved := take 50 (elems next) # saved st\<rparr>))"

definition log_error :: "store \<Rightarrow> store" where
  "log_error st = st\<lparr>diagnostics := Suc (diagnostics st)\<rparr>"

text \<open>\<^verbatim>\<open>updateSandwiches\<close>.\<close>

definition updateSandwiches :: "jsval \<Rightarrow> store \<Rightarrow> failure + store" where
  "updateSandwiches newSandwich st =
     (case has_sandwich newSandwich of
        Inl e \<Rightarrow> Inl (Thrown e)
      | Inr True \<Rightarrow> setSandwiches (sandwiches_updater newSandwich) st
      | Inr False \<Rightarrow> Inr (log_error st))"

text \<open>
  The component after mounting: the state is what \<^verbatim>\<open>getInitialSandwiches\<close> returned, and
  the saving effect has run once.
\<close>

definition mount_store :: "parser \<Rightarrow> js_error + string option \<Rightarrow> store" where
  "mount_store parse entry =
     (let (xs, d) = getInitialSandwiches parse entry
      in \<lparr>sandwiches = \<lparr>ident = 0, elems = xs\<rparr>,
          next_ident = 1,
          saved = [take 50 xs],
          diagnostics = d\<rparr>)"

text \<open>A sequence of \<^verbatim>\<open>updateSandwiches\<close> calls, stopping when the component has crashed.\<close>

fun appends :: "jsval list \<Rightarrow> store \<Rightarrow> failure + store" where
  "appends [] st = Inr st"
| "appends (r # rs) st =
     (case updateSandwiches r st of
        Inl f \<Rightarrow> Inl f
      | Inr st' \<Rightarrow> appends rs st')"

text \<open>
  \<^verbatim>\<open>websocket.onmessage\<close>: the body of the \<^verbatim>\<open>try\<close> block, then the handler with its
  \<^verbatim>\<open>catch\<close>, which takes what was thrown to the handler.
\<close>

definition onmessage_try :: "parser \<Rightarrow> string \<Rightarrow> store \<Rightarrow> failure + store" where
  "onmessage_try parse event_data st =
     (case parse event_data of
        Inl e \<Rightarrow> Inl (Thrown e)
      | Inr data \<Rightarrow>
          (case has_sandwich data of
             Inl e \<Rightarrow> Inl (Thrown e)
           | Inr True \<Rightarrow> updateSandwiches data st
           | Inr False \<Rightarrow> Inr (log_error st)))"

definition onmessage :: "parser \<Rightarrow> string \<Rightarrow> store \<Rightarrow> failure + store" where
  "onmessage parse event_data st =
     (case onmessage_try parse event_data st of
        Inl (Thrown e) \<Rightarrow> Inr (log_error st)
      | r \<Rightarrow> r)"


text \<open>
  What an instant query of the metrics gateway comes back with: the promise is rejected, or
  it resolves to a result with its \<^verbatim>\<open>resultType\<close> and its \<^verbatim>\<open>result\<close> array, whose
  entries have a \<^verbatim>\<open>value\<close> or none. \<open>'v\<close> is what the caller reads off that value.
\<close>

record 'v query_result =
  resultType :: string
  result :: "'v option list"

datatype 'v response = Rejected | Resolved "'v query_result"

text \<open>
  \<^verbatim>\<open>fetchSandwichesFallback\<close> once the query has come back. The value read is the text
  \<^verbatim>\<open>instantVectorResult[0].value.value.toString()\<close>. The inner \<^verbatim>\<open>try\<close> holds the parse
  and the call of \<^verbatim>\<open>updateSandwiches\<close>; its \<^verbatim>\<open>catch\<close> and the outer one both log.
\<close>

definition fallback_parse_try :: "parser \<Rightarrow> string \<Rightarrow> store \<Rightarrow> failure + store" where
  "fallback_parse_try parse text st =
     (case parse text of
        Inl e \<Rightarrow> Inl (Thrown e)
      | Inr sandwichData \<Rightarrow> updateSandwiches sandwichData st)"

definition fetchSandwichesFallback_done :: "parser \<Rightarrow> string response \<Rightarrow> store \<Rightarrow> failure + store" where
  "fetchSandwichesFallback_done parse resp st =
     (case resp of
        Rejected \<Rightarrow> Inr (log_error st)
      | Resolved r \<Rightarrow>
          if resultType r = ''vector'' \<and> length (result r) > 0
          then (case hd (result r) of
                  None \<Rightarrow> Inr st
                | Some text \<Rightarrow>
                    (case fallback_parse_try parse text st of
                       Inl (Thrown e) \<Rightarrow> Inr (log_error st)
                     | res \<Rightarrow> res))
          else Inr st)"

section \<open>The time series\<close>

text \<open>A point of the balance chart: \<^verbatim>\<open>{ time, balance }\<close>, the time in milliseconds.\<close>

record point =
  time :: int
  balance :: real

text \<open>The updater \<^verbatim>\<open>fetchLatestBalance\<close> passes to \<^verbatim>\<open>setBalanceChartData\<close>.\<close>

definition live_append :: "int \<Rightarrow> real \<Rightarrow> point list \<Rightarrow> point list" where
  "live_append newTimestamp newBalance prevData =
     (let newDataPoint = \<lparr>time = newTimestamp, balance = newBalance\<rparr>
      in if length prevData > 0 \<and> time (last prevData) \<ge> newTimestamp
         then prevData
         else prevData @ [newDataPoint])"

record balance_view =
  liveBalance :: real
  balanceChartData :: "point list"

text \<open>
  \<^verbatim>\<open>fetchLatestBalance\<close> once the query has come back; the value read is the pair of
  \<^verbatim>\<open>value.time.getTime()\<close> and \<^verbatim>\<open>value.value\<close>. Every failure is swallowed.
\<close>

definition fetchLatestBalance_done :: "(int \<times> real) response \<Rightarrow> balance_view \<Rightarrow> balance_view" where
  "fetchLatestBalance_done resp v =
     (case resp of
        Rejected \<Rightarrow> v
      | Resolved r \<Rightarrow>
          if resultType r = ''vector'' \<and> length (result r) > 0
          then (case hd (result r) of
                  None \<Rightarrow> v
                | Some (newTimestamp, newBalance) \<Rightarrow>
                    v\<lparr>liveBalance := newBalance,
                      balanceChartData := live_append newTimestamp newBalance (balanceChartData v)\<rparr>)
          else v)"

text \<open>A run of live appends, each with its timestamp and balance.\<close>

fun live_appends :: "(int \<times> real) list \<Rightarrow> point list \<Rightarrow> point list" where
  "live_appends [] xs = xs"
| "live_appends ((t, b) # ps) xs = live_appends ps (live_append t b xs)"

subsection \<open>The rate snapshot\<close>

definition timeRanges :: "string list" where
  "timeRanges = [''1h'', ''3h'', ''6h'', ''12h'', ''24h'']"

definition profit_query :: "string \<Rightarrow> string" where
  "profit_query r = ''increase(sandwich_possible_profit_total['' @ r @ ''])''"

text \<open>The body of the loop of \<^verbatim>\<open>fetchProfitPerHour\<close>: what \<^verbatim>\<open>profits[range]\<close> is set to, for the response to the query of the label.\<close>

definition profit_of_response :: "real response \<Rightarrow> real" where
  "profit_of_response resp =
     (case resp of
        Rejected \<Rightarrow> 0
      | Resolved r \<Rightarrow>
          if resultType r = ''vector'' \<and> length (result r) > 0
          then (case hd (result r) of Some v \<Rightarrow> v | None \<Rightarrow> 0)
          else 0)"

text \<open>
  One run of \<^verbatim>\<open>fetchProfitPerHour\<close>, cut at its \<^verbatim>\<open>await\<close>s: the labels still to query, the
  local object \<^verbatim>\<open>profits\<close>, and the component's \<^verbatim>\<open>profitPerHour\<close> state that readers see.
  A step resumes after one query and stores its label's value in \<^verbatim>\<open>profits\<close>; when no
  label is left the step is \<^verbatim>\<open>setProfitPerHour(profits)\<close>. The gateway answers each query
  text with a response.
\<close>

record rate_run =
  remaining :: "string list"
  profits :: "string \<rightharpoonup> real"
  profitPerHour :: "string \<rightharpoonup> real"
  settled :: bool

definition rate_start :: "(string \<rightharpoonup> real) \<Rightarrow> rate_run" where
  "rate_start visible =
     \<lparr>remaining = timeRanges, profits = Map.empty, profitPerHour = visible, settled = False\<rparr>"

definition rate_step :: "(string \<Rightarrow> real response) \<Rightarrow> rate_run \<Rightarrow> rate_run" where
  "rate_step gateway c =
     (case remaining c of
        [] \<Rightarrow> c\<lparr>profitPerHour := profits c, settled := True\<rparr>
      | r # rest \<Rightarrow>
          c\<lparr>remaining := rest,
            profits := (profits c)(r \<mapsto> profit_of_response (gateway (profit_query r)))\<rparr>)"

text \<open>The whole run: one step per label, then the assignment.\<close>

definition fetchProfitPerHour :: "(string \<Rightarrow> real response) \<Rightarrow> (string \<rightharpoonup> real) \<Rightarrow> rate_run" where
  "fetchProfitPerHour gateway visible =
     ((rate_step gateway) ^^ (Suc (length timeRanges))) (rate_start visible)"

section \<open>The feed client\<close>

definition primaryWsUrl :: string where
  "primaryWsUrl = ''ws://208.91.110.246:6287/ws/livefeed''"

definition fallbackWsUrl :: string where
  "fallbackWsUrl = ''ws://136.144.59.181:6287/ws/livefeed''"

definition maxReconnectAttempts :: nat where
  "maxReconnectAttempts = 10"

definition reconnectDelay :: nat where
  "reconnectDelay = 3000"

text \<open>
  What a timer runs when it fires: \<^verbatim>\<open>() => connectWebSocket(nextUrl)\<close>,
  \<^verbatim>\<open>fetchSandwichesFallback\<close>, or the periodic reconnect of the fallback mode.
\<close>

datatype timer_action = ConnectTo string | FetchFallback | PeriodicReconnect

text \<open>
  A pending timer: its handle (a positive integer in a browser, so a handle is always
  truthy), its delay in milliseconds, whether it came from \<^verbatim>\<open>setInterval\<close>, and its callback.
\<close>

record timer =
  tid :: nat
  delay :: nat
  repeating :: bool
  action :: timer_action

text \<open>
  A socket the client created: the \<^verbatim>\<open>url\<close> its handlers closed over, whether its
  \<^verbatim>\<open>onclose\<close> is still the client's handler, and whether \<^verbatim>\<open>close()\<close> was called on it.
  \<^verbatim>\<open>onopen\<close>, \<^verbatim>\<open>onmessage\<close> and \<^verbatim>\<open>onerror\<close> are never reassigned.
\<close>

record socket =
  sock_url :: string
  onclose_attached :: bool
  close_called :: bool

text \<open>
  The variables of the WebSocket effect, and the platform state they refer to: the sockets
  created so far, the pending timers, and the number of fallback queries issued.
\<close>

record feed =
  websocket :: "nat option"
  reconnectAttempts :: nat
  fallbackIntervalId :: "nat option"
  reconnectIntervalId :: "nat option"
  initialFallbackIntervalId :: "nat option"
  sockets :: "nat \<rightharpoonup> socket"
  next_socket :: nat
  timers :: "timer list"
  next_timer :: nat
  polls_issued :: nat

text \<open>\<^verbatim>\<open>setTimeout\<close> and \<^verbatim>\<open>setInterval\<close>: the new handle and the state with the timer pending.\<close>

definition set_timer :: "bool \<Rightarrow> nat \<Rightarrow> timer_action \<Rightarrow> feed \<Rightarrow> nat \<times> feed" where
  "set_timer rep ms act s =
     (next_timer s,
      s\<lparr>timers := timers s @ [\<lparr>tid = next_timer s, delay = ms, repeating = rep, action = act\<rparr>],
        next_timer := Suc (next_timer s)\<rparr>)"

text \<open>\<^verbatim>\<open>if (id) clearInterval(id)\<close>.\<close>

definition clear_if_set :: "nat option \<Rightarrow> feed \<Rightarrow> feed" where
  "clear_if_set h s =
     (case h of
        None \<Rightarrow> s
      | Some i \<Rightarrow> s\<lparr>timers := filter (\<lambda>t. tid t \<noteq> i) (timers s)\<rparr>)"

text \<open>\<^verbatim>\<open>websocket.close()\<close> on socket \<open>k\<close>.\<close>

definition socket_close :: "nat \<Rightarrow> feed \<Rightarrow> feed" where
  "socket_close k s =
     (case sockets s k of
        None \<Rightarrow> s
      | Some sk \<Rightarrow> s\<lparr>sockets := (sockets s)(k \<mapsto> sk\<lparr>close_called := True\<rparr>)\<rparr>)"

text \<open>The call \<^verbatim>\<open>fetchSandwichesFallback()\<close>: one more query is on its way.\<close>

definition fetchSandwichesFallback :: "feed \<Rightarrow> feed" where
  "fetchSandwichesFallback s = s\<lparr>polls_issued := Suc (polls_issued s)\<rparr>"

definition connectWebSocket :: "string \<Rightarrow> feed \<Rightarrow> feed" where
  "connectWebSocket url s =
     (let s1 = (case websocket s of None \<Rightarrow> s | Some k \<Rightarrow> socket_close k s)
      in s1\<lparr>websocket := Some (next_socket s1),
            sockets := (sockets s1)(next_socket s1 \<mapsto>
                         \<lparr>sock_url = url, onclose_attached = True, close_called = False\<rparr>),
            next_socket := Suc (next_socket s1)\<rparr>)"

definition onopen :: "feed \<Rightarrow> feed" where
  "onopen s =
     (let s1 = s\<lparr>reconnectAttempts := 0\<rparr>;
          s2 = clear_if_set (fallbackIntervalId s1) s1;
          s3 = clear_if_set (reconnectIntervalId s2) s2
      in s3\<lparr>fallbackIntervalId := None, reconnectIntervalId := None\<rparr>)"

definition onerror :: "feed \<Rightarrow> feed" where
  "onerror s = fetchSandwichesFallback s"

text \<open>
  \<^verbatim>\<open>websocket.onclose\<close> of a socket that was connected to \<open>url\<close>, for the close code of the
  event.
\<close>

definition onclose :: "string \<Rightarrow> nat \<Rightarrow> feed \<Rightarrow> feed" where
  "onclose url code s =
     (if code = 1000 \<or> code = 1005 then s
      else if reconnectAttempts s < maxReconnectAttempts then
        (let s1 = s\<lparr>reconnectAttempts := Suc (reconnectAttempts s)\<rparr>;
             nextUrl = (if url = primaryWsUrl then fallbackWsUrl else primaryWsUrl);
             s2 = snd (set_timer False reconnectDelay (ConnectTo nextUrl) s1)
         in fetchSandwichesFallback s2)
      else
        (let s1 = (if fallbackIntervalId s = None
                   then (let (h, s') = set_timer True 10000 FetchFallback s
                         in s'\<lparr>fallbackIntervalId := Some h\<rparr>)
                   else s)
         in if reconnectIntervalId s1 = None
            then (let (h, s') = set_timer True 30000 PeriodicReconnect s1
                  in s'\<lparr>reconnectIntervalId := Some h\<rparr>)
            else s1))"

text \<open>The callback of the periodic reconnect interval.\<close>

definition periodic_reconnect :: "feed \<Rightarrow> feed" where
  "periodic_reconnect s = connectWebSocket primaryWsUrl (s\<lparr>reconnectAttempts := 0\<rparr>)"

text \<open>The state the effect starts from, and the body of the effect.\<close>

definition feed_init :: feed where
  "feed_init =
     \<lparr>websocket = None, reconnectAttempts = 0, fallbackIntervalId = None,
      reconnectIntervalId = None, initialFallbackIntervalId = None,
      sockets = Map.empty, next_socket = 0, timers = [], next_timer = 1, polls_issued = 0\<rparr>"

definition mount_feed :: feed where
  "mount_feed =
     (let s1 = connectWebSocket primaryWsUrl feed_init;
          (h, s2) = set_timer True 30000 FetchFallback s1
      in s2\<lparr>initialFallbackIntervalId := Some h\<rparr>)"

text \<open>The function the effect returns, run when the component unmounts.\<close>

definition cleanup :: "feed \<Rightarrow> feed" where
  "cleanup s =
     (let s1 = (case websocket s of
                  None \<Rightarrow> s
                | Some k \<Rightarrow>
                    (case sockets s k of
                       None \<Rightarrow> s
                     | Some sk \<Rightarrow>
                         socket_close k
                           (s\<lparr>sockets := (sockets s)(k \<mapsto> sk\<lparr>onclose_attached := False\<rparr>)\<rparr>)));
          s2 = clear_if_set (fallbackIntervalId s1) s1;
          s3 = clear_if_set (reconnectIntervalId s2) s2
      in clear_if_set (initialFallbackIntervalId s3) s3)"

text \<open>
  What the platform can deliver: an event of a socket, a timer that fires, the unmount of
  the component. An event of a socket reaches the handler assigned to that socket; a timer
  fires only while it is pending, and a timeout is no longer pending once it fired.
\<close>

datatype event = Open nat | Error nat | Close nat nat | Fire nat | Unmount

definition run_action :: "timer_action \<Rightarrow> feed \<Rightarrow> feed" where
  "run_action a s =
     (case a of
        ConnectTo url \<Rightarrow> connectWebSocket url s
      | FetchFallback \<Rightarrow> fetchSandwichesFallback s
      | PeriodicReconnect \<Rightarrow> periodic_reconnect s)"

definition step :: "event \<Rightarrow> feed \<Rightarrow> feed" where
  "step e s =
     (case e of
        Open k \<Rightarrow> (case sockets s k of None \<Rightarrow> s | Some sk \<Rightarrow> onopen s)
      | Error k \<Rightarrow> (case sockets s k of None \<Rightarrow> s | Some sk \<Rightarrow> onerror s)
      | Close k code \<Rightarrow>
          (case sockets s k of
             None \<Rightarrow> s
           | Some sk \<Rightarrow> if onclose_attached sk then onclose (sock_url sk) code s else s)
      | Fire i \<Rightarrow>
          (case find (\<lambda>t. tid t = i) (timers s) of
             None \<Rightarrow> s
           | Some t \<Rightarrow>
               run_action (action t)
                 (if repeating t then s
                  else s\<lparr>timers := filter (\<lambda>t. tid t \<noteq> i) (timers s)\<rparr>))
      | Unmount \<Rightarrow> cleanup s)"

definition run :: "event list \<Rightarrow> feed \<Rightarrow> feed" where
  "run es s = fold step es s"







section \<open>Properties the claims speak of\<close>

text \<open>A record whose \<^verbatim>\<open>data.sandwich.slot\<close> can be read without a TypeError.\<close>

definition has_slot :: "jsval \<Rightarrow> bool" where
  "has_slot s = (\<not> isl (slot_of s))"

text \<open>
  No two records of the list have the same slot: no record matches, in the comparison of
  \<^verbatim>\<open>findIndex\<close>, a record in front of it.
\<close>

fun dup_free :: "jsval list \<Rightarrow> bool" where
  "dup_free [] = True"
| "dup_free (x # xs) = (list_all (\<lambda>y. slot_match y x \<noteq> Inr True) xs \<and> dup_free xs)"

text \<open>The parsed form of the message \<^verbatim>\<open>{"data":{"sandwich":{"slot":n}}}\<close>.\<close>

definition sandwich_with_slot :: "real \<Rightarrow> jsval" where
  "sandwich_with_slot n = Object [(''data'', Object [(''sandwich'', Object [(''slot'', Number n)])])]"

text \<open>The array in the state is older than the next one to be allocated.\<close>

definition store_ok :: "store \<Rightarrow> bool" where
  "store_ok st = (ident (sandwiches st) < next_ident st)"

text \<open>A series with strictly increasing timestamps.\<close>

definition ascending :: "point list \<Rightarrow> bool" where
  "ascending xs = sorted_wrt (<) (map time xs)"

text \<open>A close code other than the two of a normal closure.\<close>

definition abnormal :: "nat \<Rightarrow> bool" where
  "abnormal code = (code \<noteq> 1000 \<and> code \<noteq> 1005)"

definition alternate :: "string \<Rightarrow> string" where
  "alternate url = (if url = primaryWsUrl then fallbackWsUrl else primaryWsUrl)"







text \<open>
  Sample data: a cache entry holding the same record twice, with its parser; a store whose
  state holds the given records; a parser for two messages; a balance series; a gateway
  that answers the five rate queries in different ways.
\<close>

definition duplicate_cache_text :: string where
  \<open>duplicate_cache_text = ''[{"data":{"sandwich":{"slot":7}}},{"data":{"sandwich":{"slot":7}}}]''\<close>

definition duplicate_cache_parse :: parser where
  "duplicate_cache_parse =
     parse_table [(duplicate_cache_text, Array [sandwich_with_slot 7, sandwich_with_slot 7])]"

definition store_of :: "jsval list \<Rightarrow> store" where
  "store_of xs = \<lparr>sandwiches = \<lparr>ident = 0, elems = xs\<rparr>, next_ident = 1, saved = [take 50 xs],
                 diagnostics = 0\<rparr>"

definition sample_parse :: parser where
  \<open>sample_parse =
     parse_table [(''{"type":"ping"}'', Object [(''type'', Str ''ping'')]),
                  (''{"data":{"sandwich":{"slot":7}}}'', sandwich_with_slot 7)]\<close>

definition sample_series :: "point list" where
  "sample_series = [\<lparr>time = 1000, balance = 5\<rparr>, \<lparr>time = 2000, balance = 6\<rparr>]"

definition sample_gateway :: "string \<Rightarrow> real response" where
  "sample_gateway q =
     (if q = profit_query ''1h'' then Resolved \<lparr>resultType = ''vector'', result = [Some 2.5]\<rparr>
      else if q = profit_query ''3h'' then Rejected
      else if q = profit_query ''6h'' then Resolved \<lparr>resultType = ''vector'', result = []\<rparr>
      else Resolved \<lparr>resultType = ''vector'', result = [Some 40]\<rparr>)"

section \<open>The event store: auxiliary facts\<close>

lemmas store_eval = mount_store_def getInitialSandwiches_def getInitialSandwiches_try_def
  parse_table_def updateSandwiches_def setSandwiches_def sandwiches_updater_def slot_match_def slot_of_def
  has_sandwich_def sandwich_with_slot_def log_error_def has_slot_def store_ok_def

lemmas feed_eval = mount_feed_def feed_init_def connectWebSocket_def set_timer_def
  clear_if_set_def socket_close_def fetchSandwichesFallback_def onopen_def onerror_def
  onclose_def periodic_reconnect_def cleanup_def run_action_def step_def run_def
  maxReconnectAttempts_def reconnectDelay_def primaryWsUrl_def fallbackWsUrl_def

lemma get_prop_truthy: "truthy v \<Longrightarrow> get_prop k v \<noteq> Inl e"
  by (cases v) (auto split: option.splits)

lemma has_sandwich_total: "has_sandwich v \<noteq> Inl e"
  unfolding has_sandwich_def
  by (auto split: sum.splits simp: get_prop_truthy)

lemma has_sandwich_has_slot: "has_sandwich v = Inr True \<Longrightarrow> has_slot v"
proof -
  assume a: "has_sandwich v = Inr True"
  then have tv: "truthy v" unfolding has_sandwich_def by (auto split: if_splits)
  then obtain d where d: "get_prop ''data'' v = Inr d"
    using get_prop_truthy [of v "''data''"] by (cases "get_prop ''data'' v") auto
  with a tv have td: "truthy d" unfolding has_sandwich_def by (auto split: if_splits)
  then obtain w where w: "get_prop ''sandwich'' d = Inr w"
    using get_prop_truthy [of d "''sandwich''"] by (cases "get_prop ''sandwich'' d") auto
  with a tv d td have "truthy w" unfolding has_sandwich_def by auto
  then obtain x where "get_prop ''slot'' w = Inr x"
    using get_prop_truthy [of w "''slot''"] by (cases "get_prop ''slot'' w") auto
  with d w show ?thesis unfolding has_slot_def slot_of_def by simp
qed

lemma strict_eq_sym: "strict_eq a b = strict_eq b a"
  by (cases a; cases b) auto

lemma slot_match_sym: "slot_match a b = Inr True \<longleftrightarrow> slot_match b a = Inr True"
  unfolding slot_match_def by (auto split: sum.splits simp: strict_eq_sym)

lemma slot_match_readable:
  "has_slot s \<Longrightarrow> has_slot r \<Longrightarrow> \<exists>b. slot_match s r = Inr b"
  unfolding has_slot_def slot_match_def by (auto split: sum.splits)

lemma findIndex_Cons:
  "findIndex_slot r (s # rest) = Inr i \<Longrightarrow>
     (slot_match s r = Inr True \<and> i = 0) \<or>
     (slot_match s r = Inr False \<and>
      (\<exists>j. findIndex_slot r rest = Inr j \<and> i = (if j = - 1 then - 1 else j + 1)))"
  by (cases "slot_match s r"; cases "findIndex_slot r rest") (auto split: bool.splits)

lemma findIndex_range:
  "findIndex_slot r xs = Inr i \<Longrightarrow> i = - 1 \<or> (0 \<le> i \<and> i < int (length xs))"
proof (induction xs arbitrary: i)
  case Nil
  then show ?case by simp
next
  case (Cons s rest)
  from findIndex_Cons [OF Cons.prems] show ?case
  proof
    assume "slot_match s r = Inr True \<and> i = 0"
    then show ?thesis by simp
  next
    assume "slot_match s r = Inr False \<and>
      (\<exists>j. findIndex_slot r rest = Inr j \<and> i = (if j = - 1 then - 1 else j + 1))"
    then obtain j where j: "findIndex_slot r rest = Inr j" "i = (if j = - 1 then - 1 else j + 1)"
      by blast
    from Cons.IH [OF j(1)] j(2) show ?thesis by (auto split: if_splits)
  qed
qed

lemma findIndex_none:
  "findIndex_slot r xs = Inr (- 1) \<longleftrightarrow> (\<forall>s\<in>set xs. slot_match s r = Inr False)"
proof (induction xs)
  case Nil
  then show ?case by simp
next
  case (Cons s rest)
  show ?case
  proof
    assume a: "findIndex_slot r (s # rest) = Inr (- 1)"
    from findIndex_Cons [OF a] obtain j where
      j: "slot_match s r = Inr False" "findIndex_slot r rest = Inr j"
         "- 1 = (if j = - 1 then - 1 else j + 1)"
      by auto
    from findIndex_range [OF j(2)] j(3) have "j = - 1" by (auto split: if_splits)
    with j Cons.IH show "\<forall>s\<in>set (s # rest). slot_match s r = Inr False" by simp
  next
    assume "\<forall>s\<in>set (s # rest). slot_match s r = Inr False"
    with Cons.IH show "findIndex_slot r (s # rest) = Inr (- 1)" by simp
  qed
qed

lemma findIndex_hit:
  "findIndex_slot r xs = Inr i \<Longrightarrow> i \<noteq> - 1 \<Longrightarrow> slot_match (xs ! nat i) r = Inr True"
proof (induction xs arbitrary: i)
  case Nil
  then show ?case by simp
next
  case (Cons s rest)
  from findIndex_Cons [OF Cons.prems(1)] show ?case
  proof
    assume "slot_match s r = Inr True \<and> i = 0"
    then show ?thesis by simp
  next
    assume "slot_match s r = Inr False \<and>
      (\<exists>j. findIndex_slot r rest = Inr j \<and> i = (if j = - 1 then - 1 else j + 1))"
    then obtain j where j: "findIndex_slot r rest = Inr j" "i = (if j = - 1 then - 1 else j + 1)"
      by blast
    with Cons.prems(2) have ne: "j \<noteq> - 1" and i: "i = j + 1" by (auto split: if_splits)
    from findIndex_range [OF j(1)] ne have "0 \<le> j" by auto
    with i Cons.IH [OF j(1) ne] show ?thesis by (simp add: nat_add_distrib)
  qed
qed

lemma findIndex_total:
  "list_all has_slot xs \<Longrightarrow> has_slot r \<Longrightarrow> \<exists>i. findIndex_slot r xs = Inr i"
proof (induction xs)
  case Nil
  then show ?case by simp
next
  case (Cons s rest)
  then obtain b where "slot_match s r = Inr b"
    using slot_match_readable [of s r] by auto
  moreover from Cons obtain i where "findIndex_slot r rest = Inr i" by auto
  ultimately show ?case by (cases b) auto
qed

lemma dup_free_take: "dup_free xs \<Longrightarrow> dup_free (take n xs)"
proof (induction xs arbitrary: n)
  case Nil
  then show ?case by simp
next
  case (Cons x xs)
  then show ?case
    by (cases n) (auto simp: list_all_iff dest: in_set_takeD)
qed

lemma updater_cases:
  "sandwiches_updater r fresh prev = Inr next \<Longrightarrow>
     next = prev \<or>
     (findIndex_slot r (elems prev) = Inr (- 1) \<and>
      next = \<lparr>ident = fresh, elems = take 50 (r # elems prev)\<rparr>)"
  unfolding sandwiches_updater_def by (auto split: sum.splits if_splits)

lemma updateSandwiches_cases:
  "updateSandwiches r st = Inr st' \<Longrightarrow>
     sandwiches st' = sandwiches st \<or>
     (findIndex_slot r (elems (sandwiches st)) = Inr (- 1) \<and>
      elems (sandwiches st') = take 50 (r # elems (sandwiches st)))"
  unfolding updateSandwiches_def setSandwiches_def log_error_def
  by (auto split: sum.splits bool.splits if_splits dest!: updater_cases)

lemma dup_free_step:
  assumes "dup_free (elems (sandwiches st))" and "updateSandwiches r st = Inr st'"
  shows "dup_free (elems (sandwiches st'))"
proof -
  from updateSandwiches_cases [OF assms(2)] show ?thesis
  proof
    assume "sandwiches st' = sandwiches st"
    with assms(1) show ?thesis by simp
  next
    assume a: "findIndex_slot r (elems (sandwiches st)) = Inr (- 1) \<and>
      elems (sandwiches st') = take 50 (r # elems (sandwiches st))"
    then have "\<forall>s\<in>set (elems (sandwiches st)). slot_match s r = Inr False"
      by (simp add: findIndex_none)
    then have "dup_free (r # elems (sandwiches st))"
      using assms(1) by (auto simp: list_all_iff)
    with a show ?thesis using dup_free_take by metis
  qed
qed

lemma dup_free_appends:
  "dup_free (elems (sandwiches st)) \<Longrightarrow> appends rs st = Inr st' \<Longrightarrow> dup_free (elems (sandwiches st'))"
proof (induction rs arbitrary: st)
  case Nil
  then show ?case by simp
next
  case (Cons r rs)
  then show ?case by (auto split: sum.splits dest: dup_free_step)
qed


lemma has_slot_step:
  assumes "list_all has_slot (elems (sandwiches st))" and "updateSandwiches r st = Inr st'"
  shows "list_all has_slot (elems (sandwiches st'))"
proof -
  from updateSandwiches_cases [OF assms(2)] show ?thesis
  proof
    assume "sandwiches st' = sandwiches st"
    with assms(1) show ?thesis by simp
  next
    assume a: "findIndex_slot r (elems (sandwiches st)) = Inr (- 1) \<and>
      elems (sandwiches st') = take 50 (r # elems (sandwiches st))"
    from assms(2) have "has_sandwich r = Inr True \<or> sandwiches st' = sandwiches st"
      unfolding updateSandwiches_def log_error_def
      by (auto split: sum.splits bool.splits)
    then show ?thesis
    proof
      assume "has_sandwich r = Inr True"
      then have "has_slot r" by (rule has_sandwich_has_slot)
      with assms(1) a show ?thesis by (auto simp: list_all_iff dest: in_set_takeD)
    next
      assume "sandwiches st' = sandwiches st"
      with assms(1) show ?thesis by simp
    qed
  qed
qed

lemma updateSandwiches_total:
  assumes "list_all has_slot (elems (sandwiches st))"
  shows "\<exists>st'. updateSandwiches r st = Inr st'"
proof (cases "has_sandwich r")
  case (Inl e)
  then show ?thesis by (simp add: has_sandwich_total)
next
  case (Inr b)
  show ?thesis
  proof (cases b)
    case False
    with Inr show ?thesis unfolding updateSandwiches_def by simp
  next
    case True
    with Inr have "has_slot r" by (simp add: has_sandwich_has_slot)
    with assms obtain i where "findIndex_slot r (elems (sandwiches st)) = Inr i"
      using findIndex_total by blast
    with Inr True show ?thesis
      unfolding updateSandwiches_def setSandwiches_def sandwiches_updater_def by simp
  qed
qed

lemma appends_total:
  "list_all has_slot (elems (sandwiches st)) \<Longrightarrow> \<exists>st'. appends rs st = Inr st'"
proof (induction rs arbitrary: st)
  case Nil
  then show ?case by simp
next
  case (Cons r rs)
  from updateSandwiches_total [OF Cons.prems] obtain st1 where
    st1: "updateSandwiches r st = Inr st1" by blast
  from has_slot_step [OF Cons.prems st1] Cons.IH obtain st' where "appends rs st1 = Inr st'"
    by blast
  with st1 show ?case by simp
qed

lemma length_step:
  assumes "length (elems (sandwiches st)) \<le> 50" and "updateSandwiches r st = Inr st'"
  shows "length (elems (sandwiches st')) \<le> 50"
  using updateSandwiches_cases [OF assms(2)] assms(1) by auto

lemma length_appends:
  "length (elems (sandwiches st)) \<le> 50 \<Longrightarrow> appends rs st = Inr st' \<Longrightarrow>
     length (elems (sandwiches st')) \<le> 50"
proof (induction rs arbitrary: st)
  case Nil
  then show ?case by simp
next
  case (Cons r rs)
  then show ?case by (auto split: sum.splits dest: length_step)
qed

lemma length_getInitialSandwiches: "length (fst (getInitialSandwiches parse entry)) \<le> 50"
  unfolding getInitialSandwiches_def getInitialSandwiches_try_def
  by (auto split: sum.splits option.splits jsval.splits)

lemma store_ok_step: "store_ok st \<Longrightarrow> updateSandwiches r st = Inr st' \<Longrightarrow> store_ok st'"
  unfolding store_ok_def updateSandwiches_def setSandwiches_def log_error_def
  by (auto split: sum.splits bool.splits if_splits dest!: updater_cases)

lemma updateSandwiches_new:
  assumes "store_ok st" and "has_sandwich r = Inr True"
    and "\<forall>s\<in>set (elems (sandwiches st)). slot_match s r = Inr False"
  shows "updateSandwiches r st =
           Inr (st\<lparr>sandwiches := \<lparr>ident = next_ident st,
                                  elems = take 50 (r # elems (sandwiches st))\<rparr>,
                   next_ident := Suc (next_ident st),
                   saved := take 50 (r # elems (sandwiches st)) # saved st\<rparr>)"
proof -
  from assms(3) have "findIndex_slot r (elems (sandwiches st)) = Inr (- 1)"
    by (simp add: findIndex_none)
  with assms(1,2) show ?thesis
    unfolding updateSandwiches_def setSandwiches_def sandwiches_updater_def store_ok_def
    by simp
qed

lemma findIndex_first_match:
  assumes "i < length xs" and "slot_match (xs ! i) r = Inr True"
    and "\<forall>j<i. has_slot (xs ! j)"
  shows "\<exists>k. findIndex_slot r xs = Inr k \<and> k \<noteq> - 1"
  using assms
proof (induction xs arbitrary: i)
  case Nil
  then show ?case by simp
next
  case (Cons s rest)
  show ?case
  proof (cases i)
    case 0
    with Cons.prems show ?thesis by simp
  next
    case (Suc i')
    from Cons.prems(2) have "has_slot r"
      unfolding has_slot_def slot_match_def by (auto split: sum.splits)
    moreover from Cons.prems(3) Suc have "has_slot s" by auto
    ultimately obtain b where b: "slot_match s r = Inr b"
      using slot_match_readable by blast
    from Cons.prems Suc have "i' < length rest" "slot_match (rest ! i') r = Inr True"
      "\<forall>j<i'. has_slot (rest ! j)" by auto
    from Cons.IH [OF this] obtain k where k: "findIndex_slot r rest = Inr k" "k \<noteq> - 1"
      by blast
    from findIndex_range [OF k(1)] k(2) have "0 \<le> k" by auto
    with b k show ?thesis by (cases b) auto
  qed
qed

lemma updateSandwiches_duplicate:
  assumes "findIndex_slot r (elems (sandwiches st)) = Inr k" and "k \<noteq> - 1"
  shows "\<exists>st'. updateSandwiches r st = Inr st' \<and> sandwiches st' = sandwiches st \<and>
           saved st' = saved st \<and> next_ident st' = next_ident st \<and>
           (has_sandwich r = Inr True \<longrightarrow> st' = st)"
proof (cases "has_sandwich r")
  case (Inl e)
  then show ?thesis by (simp add: has_sandwich_total)
next
  case (Inr b)
  with assms show ?thesis
    unfolding updateSandwiches_def setSandwiches_def sandwiches_updater_def log_error_def
    by (cases b) auto
qed


lemma dup_free_append:
  "dup_free (xs @ ys) \<longleftrightarrow>
     dup_free xs \<and> dup_free ys \<and> (\<forall>x\<in>set xs. \<forall>y\<in>set ys. slot_match y x \<noteq> Inr True)"
  by (induction xs) (auto simp: list_all_iff)

lemma dup_free_rev: "dup_free (rev xs) = dup_free xs"
proof (induction xs)
  case Nil
  then show ?case by simp
next
  case (Cons x xs)
  have "(\<forall>z\<in>set xs. slot_match x z \<noteq> Inr True) = (\<forall>z\<in>set xs. slot_match z x \<noteq> Inr True)"
    using slot_match_sym by blast
  with Cons show ?case by (auto simp: dup_free_append list_all_iff)
qed

text \<open>\<open>dup_free\<close> says that no two records at different places of the list have the same slot.\<close>

lemma dup_free_iff:
  "dup_free xs \<longleftrightarrow>
     (\<forall>i<length xs. \<forall>j<length xs. i \<noteq> j \<longrightarrow> slot_match (xs ! i) (xs ! j) \<noteq> Inr True)"
proof (induction xs)
  case Nil
  then show ?case by simp
next
  case (Cons x xs)
  let ?P = "\<lambda>ys. \<forall>i<length ys. \<forall>j<length ys. i \<noteq> j \<longrightarrow> slot_match (ys ! i) (ys ! j) \<noteq> Inr True"
  show ?case
  proof
    assume a: "dup_free (x # xs)"
    then have h: "\<forall>y\<in>set xs. slot_match y x \<noteq> Inr True" and t: "?P xs"
      using Cons.IH by (auto simp: list_all_iff)
    show "?P (x # xs)"
    proof (intro allI impI)
      fix i j assume ij: "i < length (x # xs)" "j < length (x # xs)" "i \<noteq> j"
      show "slot_match ((x # xs) ! i) ((x # xs) ! j) \<noteq> Inr True"
      proof (cases i)
        case 0
        with ij obtain j' where j': "j = Suc j'" "j' < length xs" by (cases j) auto
        then have "xs ! j' \<in> set xs" by simp
        with h have "slot_match (xs ! j') x \<noteq> Inr True" by blast
        then have "slot_match x (xs ! j') \<noteq> Inr True" using slot_match_sym by blast
        with 0 j' show ?thesis by simp
      next
        case (Suc i')
        show ?thesis
        proof (cases j)
          case 0
          from Suc ij have "xs ! i' \<in> set xs" by simp
          with h have "slot_match (xs ! i') x \<noteq> Inr True" by blast
          with 0 Suc show ?thesis by simp
        next
          case (Suc j')
          with \<open>i = Suc i'\<close> ij t show ?thesis by simp
        qed
      qed
    qed
  next
    assume p: "?P (x # xs)"
    have "?P xs"
    proof (intro allI impI)
      fix i j assume "i < length xs" "j < length xs" "i \<noteq> j"
      with p have "slot_match ((x # xs) ! Suc i) ((x # xs) ! Suc j) \<noteq> Inr True"
        by (metis Suc_less_eq length_Cons nat.inject)
      then show "slot_match (xs ! i) (xs ! j) \<noteq> Inr True" by simp
    qed
    then have d: "dup_free xs" using Cons.IH by simp
    have "\<forall>y\<in>set xs. slot_match y x \<noteq> Inr True"
    proof
      fix y assume "y \<in> set xs"
      then obtain k where k: "k < length xs" "xs ! k = y" by (auto simp: in_set_conv_nth)
      with p have "slot_match ((x # xs) ! Suc k) ((x # xs) ! 0) \<noteq> Inr True"
        by (metis Suc_less_eq length_Cons nat.distinct(1) zero_less_Suc)
      with k show "slot_match y x \<noteq> Inr True" by simp
    qed
    with d show "dup_free (x # xs)" by (simp add: list_all_iff)
  qed
qed

lemma take_Cons_take: "take (Suc n) (r # take (Suc n) ys) = take (Suc n) (r # ys)"
  by (simp add: min_def)

lemma appends_fresh:
  assumes "store_ok st" and "elems (sandwiches st) = take 50 ys"
    and "list_all has_slot ys"
    and "\<forall>r\<in>set rs. has_sandwich r = Inr True"
    and "dup_free (rev rs @ ys)"
  shows "\<exists>st'. appends rs st = Inr st' \<and> elems (sandwiches st') = take 50 (rev rs @ ys)"
  using assms
proof (induction rs arbitrary: st ys)
  case Nil
  then show ?case by simp
next
  case (Cons r rs)
  from Cons.prems(4) have valid: "has_sandwich r = Inr True" by simp
  then have hs: "has_slot r" by (rule has_sandwich_has_slot)
  from Cons.prems(5) have df: "dup_free (rev rs @ (r # ys))" by simp
  then have "\<forall>s\<in>set ys. slot_match s r \<noteq> Inr True"
    by (auto simp: dup_free_append list_all_iff)
  moreover have "\<forall>s\<in>set ys. \<exists>b. slot_match s r = Inr b"
    using Cons.prems(3) hs slot_match_readable by (auto simp: list_all_iff)
  ultimately have "\<forall>s\<in>set ys. slot_match s r = Inr False" by (metis (full_types))
  then have nomatch: "\<forall>s\<in>set (elems (sandwiches st)). slot_match s r = Inr False"
    using Cons.prems(2) by (auto dest: in_set_takeD)
  define st1 where "st1 = st\<lparr>sandwiches := \<lparr>ident = next_ident st,
                                  elems = take 50 (r # elems (sandwiches st))\<rparr>,
                   next_ident := Suc (next_ident st),
                   saved := take 50 (r # elems (sandwiches st)) # saved st\<rparr>"
  from updateSandwiches_new [OF Cons.prems(1) valid nomatch]
  have upd: "updateSandwiches r st = Inr st1" unfolding st1_def .
  have ok1: "store_ok st1" unfolding st1_def store_ok_def by simp
  have "take 50 (r # take 50 ys) = take 50 (r # ys)"
    using take_Cons_take [of 49 r ys] by simp
  then have el1: "elems (sandwiches st1) = take 50 (r # ys)"
    unfolding st1_def using Cons.prems(2) by simp
  have hs1: "list_all has_slot (r # ys)" using hs Cons.prems(3) by simp
  have v1: "\<forall>r\<in>set rs. has_sandwich r = Inr True" using Cons.prems(4) by simp
  from Cons.IH [OF ok1 el1 hs1 v1 df] upd show ?case by simp
qed

lemma getInitialSandwiches_absent: "getInitialSandwiches parse (Inr None) = ([], 0)"
  unfolding getInitialSandwiches_def getInitialSandwiches_try_def by simp

lemma getInitialSandwiches_unreadable: "getInitialSandwiches parse (Inl e) = ([], 1)"
  unfolding getInitialSandwiches_def getInitialSandwiches_try_def by simp

lemma getInitialSandwiches_parse_failure:
  "parse txt = Inl e \<Longrightarrow> fst (getInitialSandwiches parse (Inr (Some txt))) = []"
  unfolding getInitialSandwiches_def getInitialSandwiches_try_def by simp

lemma getInitialSandwiches_array:
  "txt \<noteq> [] \<Longrightarrow> parse txt = Inr (Array xs) \<Longrightarrow>
     getInitialSandwiches parse (Inr (Some txt)) = (take 50 xs, 0)"
  unfolding getInitialSandwiches_def getInitialSandwiches_try_def by simp

lemma getInitialSandwiches_not_array:
  "parse txt = Inr v \<Longrightarrow> (\<forall>xs. v \<noteq> Array xs) \<Longrightarrow>
     getInitialSandwiches parse (Inr (Some txt)) = ([], 0)"
  unfolding getInitialSandwiches_def getInitialSandwiches_try_def
  by (cases v) auto

lemma onmessage_malformed:
  assumes "parse msg = Inl e \<or> (\<exists>d. parse msg = Inr d \<and> has_sandwich d \<noteq> Inr True)"
  shows "onmessage parse msg st = Inr (log_error st)"
  using assms
proof
  assume "parse msg = Inl e"
  then show ?thesis unfolding onmessage_def onmessage_try_def by simp
next
  assume "\<exists>d. parse msg = Inr d \<and> has_sandwich d \<noteq> Inr True"
  then obtain d where d: "parse msg = Inr d" "has_sandwich d \<noteq> Inr True" by blast
  then have "has_sandwich d = Inr False"
    using has_sandwich_total [of d] by (cases "has_sandwich d") auto
  with d show ?thesis unfolding onmessage_def onmessage_try_def by simp
qed

lemma fallback_malformed:
  assumes "parse txt = Inl e" and "resultType r = ''vector''" and "result r = Some txt # others"
  shows "fetchSandwichesFallback_done parse (Resolved r) st = Inr (log_error st)"
  using assms unfolding fetchSandwichesFallback_done_def fallback_parse_try_def by simp

lemma has_sandwich_sample: "has_sandwich (sandwich_with_slot n) = Inr True"
  by (simp add: has_sandwich_def sandwich_with_slot_def)

lemma slot_match_sample:
  "slot_match (sandwich_with_slot a) (sandwich_with_slot b) = Inr (a = b)"
  by (simp add: slot_match_def slot_of_def sandwich_with_slot_def)

lemma dup_free_samples: "dup_free (map sandwich_with_slot xs) = distinct xs"
  by (induction xs) (auto simp: list_all_iff slot_match_sample)

lemma take_rev_tl: "length rs = Suc n \<Longrightarrow> take n (rev rs) = rev (tl rs)"
  by (cases rs) auto

section \<open>The time series: auxiliary facts\<close>

lemma live_append_rejects:
  "xs \<noteq> [] \<Longrightarrow> t \<le> time (last xs) \<Longrightarrow> live_append t b xs = xs"
  unfolding live_append_def by simp

lemma live_append_accepts:
  "xs = [] \<or> time (last xs) < t \<Longrightarrow> live_append t b xs = xs @ [\<lparr>time = t, balance = b\<rparr>]"
  unfolding live_append_def by auto

lemma ascending_snoc:
  "ascending (xs @ [p]) \<longleftrightarrow> ascending xs \<and> (\<forall>x\<in>set xs. time x < time p)"
  unfolding ascending_def by (auto simp: sorted_wrt_append)

lemma ascending_last:
  "ascending xs \<Longrightarrow> x \<in> set xs \<Longrightarrow> time x \<le> time (last xs)"
proof (induction xs rule: rev_induct)
  case Nil
  then show ?case by simp
next
  case (snoc y ys)
  then show ?case by (auto simp: ascending_snoc)
qed

lemma ascending_live_append: "ascending xs \<Longrightarrow> ascending (live_append t b xs)"
proof (cases "xs = [] \<or> time (last xs) < t")
  case True
  assume a: "ascending xs"
  have "\<forall>x\<in>set xs. time x < t"
  proof
    fix x assume x: "x \<in> set xs"
    then have "xs \<noteq> []" by auto
    with True have "time (last xs) < t" by simp
    with ascending_last [OF a x] show "time x < t" by simp
  qed
  with a True show ?thesis by (simp add: live_append_accepts ascending_snoc)
next
  case False
  assume "ascending xs"
  with False show ?thesis by (simp add: live_append_rejects)
qed

lemma ascending_live_appends: "ascending xs \<Longrightarrow> ascending (live_appends ps xs)"
  by (induction ps xs rule: live_appends.induct) (auto simp: ascending_live_append)

lemma rate_step_label:
  "remaining c = r # rest \<Longrightarrow>
     rate_step gw c =
       c\<lparr>remaining := rest,
         profits := (profits c)(r \<mapsto> profit_of_response (gw (profit_query r)))\<rparr>"
  unfolding rate_step_def by simp

lemma rate_steps:
  "n \<le> length (remaining c) \<Longrightarrow>
     remaining (((rate_step gw) ^^ n) c) = drop n (remaining c) \<and>
     profitPerHour (((rate_step gw) ^^ n) c) = profitPerHour c \<and>
     settled (((rate_step gw) ^^ n) c) = settled c \<and>
     (\<forall>k. profits (((rate_step gw) ^^ n) c) k =
            (if k \<in> set (take n (remaining c))
             then Some (profit_of_response (gw (profit_query k)))
             else profits c k))"
proof (induction n arbitrary: c)
  case 0
  then show ?case by simp
next
  case (Suc n)
  then obtain r rest where rr: "remaining c = r # rest" by (cases "remaining c") auto
  let ?c1 = "rate_step gw c"
  note c1 = rate_step_label [OF rr, of gw]
  have "n \<le> length (remaining ?c1)" using Suc.prems rr c1 by simp
  from Suc.IH [OF this] show ?case
    unfolding funpow_Suc_right o_apply using rr c1 by auto
qed

lemma rate_step_final:
  "remaining c = [] \<Longrightarrow> rate_step gw c = c\<lparr>profitPerHour := profits c, settled := True\<rparr>"
  unfolding rate_step_def by simp

lemma fetchProfitPerHour_result:
  "profitPerHour (fetchProfitPerHour gw old) =
     (\<lambda>k. if k \<in> set timeRanges then Some (profit_of_response (gw (profit_query k))) else None)"
proof -
  let ?c = "((rate_step gw) ^^ (length timeRanges)) (rate_start old)"
  have len: "length timeRanges \<le> length (remaining (rate_start old))"
    unfolding rate_start_def by simp
  from rate_steps [OF len, of gw] have
    r: "remaining ?c = []" and
    p: "\<forall>k. profits ?c k = (if k \<in> set timeRanges
             then Some (profit_of_response (gw (profit_query k))) else None)"
    unfolding rate_start_def by auto
  have "fetchProfitPerHour gw old = rate_step gw ?c"
    unfolding fetchProfitPerHour_def by simp
  also have "\<dots> = ?c\<lparr>profitPerHour := profits ?c, settled := True\<rparr>"
    using r by (rule rate_step_final)
  finally show ?thesis using p by auto
qed

lemma fetchProfitPerHour_unseen:
  assumes "n \<le> length timeRanges"
  shows "profitPerHour (((rate_step gw) ^^ n) (rate_start old)) = old"
proof -
  have "n \<le> length (remaining (rate_start old))"
    using assms unfolding rate_start_def by simp
  from rate_steps [OF this, of gw] show ?thesis unfolding rate_start_def by simp
qed

lemma profit_of_response_zero:
  "profit_of_response Rejected = 0"
  "resultType r \<noteq> ''vector'' \<Longrightarrow> profit_of_response (Resolved r) = 0"
  "result r = [] \<Longrightarrow> profit_of_response (Resolved r) = 0"
  "result r = None # others \<Longrightarrow> profit_of_response (Resolved r) = 0"
  "resultType r = ''vector'' \<Longrightarrow> result r = Some v # others \<Longrightarrow> profit_of_response (Resolved r) = v"
  unfolding profit_of_response_def by auto

lemma profit_query_inj: "profit_query a = profit_query b \<Longrightarrow> a = b"
  unfolding profit_query_def by simp

lemma ascending_fetchLatestBalance:
  "ascending (balanceChartData v) \<Longrightarrow> ascending (balanceChartData (fetchLatestBalance_done resp v))"
  unfolding fetchLatestBalance_done_def
  by (auto split: response.splits option.splits simp: ascending_live_append)

lemma fetchProfitPerHour_other_label:
  assumes "k \<noteq> l"
  shows "profitPerHour (fetchProfitPerHour (gw(profit_query l := x)) old) k =
         profitPerHour (fetchProfitPerHour gw old) k"
proof -
  from assms have "profit_query k \<noteq> profit_query l" using profit_query_inj by blast
  then show ?thesis by (simp add: fetchProfitPerHour_result)
qed

section \<open>The feed client: auxiliary facts\<close>

lemma onclose_normal: "code = 1000 \<or> code = 1005 \<Longrightarrow> onclose url code s = s"
  unfolding onclose_def by auto

lemma onclose_reconnect:
  assumes "abnormal code" and "reconnectAttempts s < maxReconnectAttempts"
  shows "onclose url code s =
           s\<lparr>reconnectAttempts := Suc (reconnectAttempts s),
             timers := timers s @ [\<lparr>tid = next_timer s, delay = 3000, repeating = False,
                                   action = ConnectTo (alternate url)\<rparr>],
             next_timer := Suc (next_timer s),
             polls_issued := Suc (polls_issued s)\<rparr>"
  using assms unfolding onclose_def abnormal_def alternate_def set_timer_def
    fetchSandwichesFallback_def reconnectDelay_def Let_def
  by simp
























section \<open>The claims\<close>

text \<open>
  Claim C1, as the code has it. Appends through \<^verbatim>\<open>updateSandwiches\<close> (from a push message
  or a fallback poll) keep a retained list free of two records with the same slot: from the
  empty list every sequence of appends runs to its end and leaves no two such records; from
  any list without them, none appear. An append whose slot is found in the retained list
  leaves the state as it was (the first record seen stays), and an append of a well-shaped
  record whose slot no retained record has puts it in front and cuts the list to 50.
  The load from the cache is not among these appends.
\<close>

theorem appends_keep_slots_unique:
  "(elems (sandwiches st0) = [] \<longrightarrow>
      (\<exists>st'. appends rs st0 = Inr st' \<and> dup_free (elems (sandwiches st'))))
   \<and> (dup_free (elems (sandwiches st)) \<and> appends rs st = Inr st1 \<longrightarrow>
        dup_free (elems (sandwiches st1)))
   \<and> (i < length (elems (sandwiches st)) \<and> slot_match (elems (sandwiches st) ! i) r = Inr True \<and>
        (\<forall>j<i. has_slot (elems (sandwiches st) ! j)) \<longrightarrow>
        (\<exists>st'. updateSandwiches r st = Inr st' \<and> sandwiches st' = sandwiches st))
   \<and> (store_ok st \<and> has_sandwich r = Inr True \<and>
        (\<forall>s\<in>set (elems (sandwiches st)). slot_match s r = Inr False) \<longrightarrow>
        (\<exists>st'. updateSandwiches r st = Inr st' \<and>
               elems (sandwiches st') = take 50 (r # elems (sandwiches st))))"
proof (intro conjI impI)
  assume e: "elems (sandwiches st0) = []"
  then have "list_all has_slot (elems (sandwiches st0))" by simp
  from appends_total [OF this] obtain st' where st': "appends rs st0 = Inr st'" by blast
  from e have "dup_free (elems (sandwiches st0))" by simp
  from dup_free_appends [OF this st'] st'
  show "\<exists>st'. appends rs st0 = Inr st' \<and> dup_free (elems (sandwiches st'))" by blast
next
  assume "dup_free (elems (sandwiches st)) \<and> appends rs st = Inr st1"
  then show "dup_free (elems (sandwiches st1))" using dup_free_appends by blast
next
  assume a: "i < length (elems (sandwiches st)) \<and>
    slot_match (elems (sandwiches st) ! i) r = Inr True \<and>
    (\<forall>j<i. has_slot (elems (sandwiches st) ! j))"
  then obtain k where "findIndex_slot r (elems (sandwiches st)) = Inr k" "k \<noteq> - 1"
    using findIndex_first_match [of i "elems (sandwiches st)" r] by blast
  from updateSandwiches_duplicate [OF this]
  show "\<exists>st'. updateSandwiches r st = Inr st' \<and> sandwiches st' = sandwiches st" by blast
next
  assume a: "store_ok st \<and> has_sandwich r = Inr True \<and>
    (\<forall>s\<in>set (elems (sandwiches st)). slot_match s r = Inr False)"
  then have "updateSandwiches r st =
           Inr (st\<lparr>sandwiches := \<lparr>ident = next_ident st,
                                  elems = take 50 (r # elems (sandwiches st))\<rparr>,
                   next_ident := Suc (next_ident st),
                   saved := take 50 (r # elems (sandwiches st)) # saved st\<rparr>)"
    using updateSandwiches_new by blast
  then show "\<exists>st'. updateSandwiches r st = Inr st' \<and>
               elems (sandwiches st') = take 50 (r # elems (sandwiches st))" by simp
qed

text \<open>The same at concrete records with slots 7 and 8.\<close>

theorem appends_keep_slots_unique_witness:
  "elems (sandwiches (store_of [])) = []
   \<and> (\<exists>st'. appends [sandwich_with_slot 7, sandwich_with_slot 7, sandwich_with_slot 8] (store_of []) = Inr st'
           \<and> dup_free (elems (sandwiches st')))
   \<and> dup_free (elems (sandwiches (store_of [sandwich_with_slot 7])))
   \<and> 0 < length (elems (sandwiches (store_of [sandwich_with_slot 7])))
   \<and> slot_match (elems (sandwiches (store_of [sandwich_with_slot 7])) ! 0) (sandwich_with_slot 7) = Inr True
   \<and> (\<exists>st'. updateSandwiches (sandwich_with_slot 7) (store_of [sandwich_with_slot 7]) = Inr st'
           \<and> sandwiches st' = sandwiches (store_of [sandwich_with_slot 7]))
   \<and> store_ok (store_of [sandwich_with_slot 7])
   \<and> has_sandwich (sandwich_with_slot 8) = Inr True
   \<and> (\<exists>st'. updateSandwiches (sandwich_with_slot 8) (store_of [sandwich_with_slot 7]) = Inr st'
           \<and> elems (sandwiches st') = [sandwich_with_slot 8, sandwich_with_slot 7])"
proof -
  let ?rs = "[sandwich_with_slot 7, sandwich_with_slot 7, sandwich_with_slot 8]"
  let ?st = "store_of [sandwich_with_slot 7]"
  have h0: "elems (sandwiches (store_of [])) = []" by (simp add: store_of_def)
  have h2: "0 < length (elems (sandwiches ?st)) \<and>
        slot_match (elems (sandwiches ?st) ! 0) (sandwich_with_slot 7) = Inr True \<and>
        (\<forall>j<0. has_slot (elems (sandwiches ?st) ! j))"
    by (simp add: store_of_def store_eval)
  have h3: "store_ok ?st \<and> has_sandwich (sandwich_with_slot 8) = Inr True \<and>
        (\<forall>s\<in>set (elems (sandwiches ?st)). slot_match s (sandwich_with_slot 8) = Inr False)"
    by (simp add: store_of_def store_eval)
  have h1: "dup_free (elems (sandwiches ?st))" by (simp add: store_of_def)
  note t = appends_keep_slots_unique [of "store_of []" ?rs ?st _ 0 "sandwich_with_slot 7"]
  note u = appends_keep_slots_unique [of "store_of []" ?rs ?st _ 0 "sandwich_with_slot 8"]
  from t h0 have c0: "\<exists>st'. appends ?rs (store_of []) = Inr st' \<and> dup_free (elems (sandwiches st'))"
    by blast
  from t h2 have c2: "\<exists>st'. updateSandwiches (sandwich_with_slot 7) ?st = Inr st' \<and>
      sandwiches st' = sandwiches ?st" by blast
  from u h3 have c3: "\<exists>st'. updateSandwiches (sandwich_with_slot 8) ?st = Inr st' \<and>
      elems (sandwiches st') = take 50 (sandwich_with_slot 8 # elems (sandwiches ?st))" by blast
  then have c3': "\<exists>st'. updateSandwiches (sandwich_with_slot 8) ?st = Inr st' \<and>
      elems (sandwiches st') = [sandwich_with_slot 8, sandwich_with_slot 7]"
    by (simp add: store_of_def)
  from h0 c0 h1 h2 c2 h3 c3' show ?thesis by blast
qed

text \<open>
  With the cache load counted among the sources the statement fails: a cache entry holding
  the record of slot 7 twice is loaded as it is, and an append of slot 8 puts a third record
  in front of the two.
\<close>

theorem cache_load_keeps_duplicates:
  "\<not> dup_free (elems (sandwiches (mount_store duplicate_cache_parse (Inr (Some duplicate_cache_text)))))
   \<and> map_sum id (elems \<circ> sandwiches)
        (appends [sandwich_with_slot 8]
           (mount_store duplicate_cache_parse (Inr (Some duplicate_cache_text)))) =
      Inr [sandwich_with_slot 8, sandwich_with_slot 7, sandwich_with_slot 7]"
  by (simp add: store_eval duplicate_cache_parse_def duplicate_cache_text_def)

text \<open>
  Claim C2. The list \<^verbatim>\<open>getInitialSandwiches\<close> returns has at most 50 records, whatever the
  cache holds; every sequence of appends onto the mounted store, or onto any list of at most
  50, leaves at most 50; and 51 appends of well-shaped records with pairwise different slots
  onto the empty store leave exactly 50 records: all but the first one appended, the latest
  in front.
\<close>

theorem retained_at_most_50:
  "length (fst (getInitialSandwiches parse entry)) \<le> 50
   \<and> (appends rs (mount_store parse entry) = Inr st1 \<longrightarrow> length (elems (sandwiches st1)) \<le> 50)
   \<and> (length (elems (sandwiches st)) \<le> 50 \<and> appends rs st = Inr st2 \<longrightarrow>
        length (elems (sandwiches st2)) \<le> 50)
   \<and> (store_ok st0 \<and> elems (sandwiches st0) = [] \<and> length rs51 = 51 \<and>
        (\<forall>r\<in>set rs51. has_sandwich r = Inr True) \<and> dup_free rs51 \<longrightarrow>
        (\<exists>st'. appends rs51 st0 = Inr st' \<and> elems (sandwiches st') = rev (tl rs51) \<and>
               length (elems (sandwiches st')) = 50))"
proof (intro conjI impI)
  show "length (fst (getInitialSandwiches parse entry)) \<le> 50"
    by (rule length_getInitialSandwiches)
next
  assume a: "appends rs (mount_store parse entry) = Inr st1"
  have "elems (sandwiches (mount_store parse entry)) = fst (getInitialSandwiches parse entry)"
    unfolding mount_store_def by (simp add: case_prod_beta)
  then have "length (elems (sandwiches (mount_store parse entry))) \<le> 50"
    using length_getInitialSandwiches [of parse entry] by simp
  from length_appends [OF this a] show "length (elems (sandwiches st1)) \<le> 50" .
next
  assume "length (elems (sandwiches st)) \<le> 50 \<and> appends rs st = Inr st2"
  then show "length (elems (sandwiches st2)) \<le> 50" using length_appends by blast
next
  assume a: "store_ok st0 \<and> elems (sandwiches st0) = [] \<and> length rs51 = 51 \<and>
        (\<forall>r\<in>set rs51. has_sandwich r = Inr True) \<and> dup_free rs51"
  then have ok: "store_ok st0" and e: "elems (sandwiches st0) = take 50 []"
    and v: "\<forall>r\<in>set rs51. has_sandwich r = Inr True" and d: "dup_free (rev rs51 @ [])"
    and l: "length rs51 = Suc 50"
    by (simp_all add: dup_free_rev)
  have "list_all has_slot []" by simp
  from appends_fresh [OF ok e this v d] obtain st' where
    st': "appends rs51 st0 = Inr st'" "elems (sandwiches st') = take 50 (rev rs51)"
    by auto
  from take_rev_tl [OF l] st'(2) have "elems (sandwiches st') = rev (tl rs51)" by simp
  moreover from this l have "length (elems (sandwiches st')) = 50" by simp
  ultimately show "\<exists>st'. appends rs51 st0 = Inr st' \<and> elems (sandwiches st') = rev (tl rs51) \<and>
               length (elems (sandwiches st')) = 50" using st'(1) by blast
qed

text \<open>The same for the records with slots 0 to 50, and for an append onto a loaded cache.\<close>

theorem retained_at_most_50_witness:
  "appends [sandwich_with_slot 8] (mount_store duplicate_cache_parse (Inr (Some duplicate_cache_text))) =
     Inr (store_of [sandwich_with_slot 7, sandwich_with_slot 7]
            \<lparr>sandwiches := \<lparr>ident = 1, elems = [sandwich_with_slot 8, sandwich_with_slot 7, sandwich_with_slot 7]\<rparr>,
             next_ident := 2,
             saved := [[sandwich_with_slot 8, sandwich_with_slot 7, sandwich_with_slot 7],
                       [sandwich_with_slot 7, sandwich_with_slot 7]]\<rparr>)
   \<and> length [sandwich_with_slot 8, sandwich_with_slot 7, sandwich_with_slot 7] \<le> 50
   \<and> store_ok (store_of [])
   \<and> elems (sandwiches (store_of [])) = []
   \<and> length (map (sandwich_with_slot \<circ> real) [0..<51]) = 51
   \<and> list_all (\<lambda>r. has_sandwich r = Inr True) (map (sandwich_with_slot \<circ> real) [0..<51])
   \<and> dup_free (map (sandwich_with_slot \<circ> real) [0..<51])
   \<and> (\<exists>st'. appends (map (sandwich_with_slot \<circ> real) [0..<51]) (store_of []) = Inr st' \<and>
             elems (sandwiches st') = rev (map (sandwich_with_slot \<circ> real) [1..<51]) \<and>
             length (elems (sandwiches st')) = 50)"
proof -
  let ?rs = "map (sandwich_with_slot \<circ> real) [0..<51]"
  let ?m = "mount_store duplicate_cache_parse (Inr (Some duplicate_cache_text))"
  let ?st1 = "store_of [sandwich_with_slot 7, sandwich_with_slot 7]
            \<lparr>sandwiches := \<lparr>ident = 1, elems = [sandwich_with_slot 8, sandwich_with_slot 7, sandwich_with_slot 7]\<rparr>,
             next_ident := 2,
             saved := [[sandwich_with_slot 8, sandwich_with_slot 7, sandwich_with_slot 7],
                       [sandwich_with_slot 7, sandwich_with_slot 7]]\<rparr>"
  have a1: "appends [sandwich_with_slot 8] ?m = Inr ?st1"
    by (simp add: store_eval store_of_def duplicate_cache_parse_def duplicate_cache_text_def)
  have h1: "store_ok (store_of [])" "elems (sandwiches (store_of [])) = []"
    by (simp_all add: store_of_def store_ok_def)
  have h2: "length ?rs = 51" by simp
  have h3: "\<forall>r\<in>set ?rs. has_sandwich r = Inr True" by (auto simp: has_sandwich_sample)
  have "map (sandwich_with_slot \<circ> real) [0..<51] = map sandwich_with_slot (map real [0..<51])"
    by simp
  moreover have "distinct (map real [0..<51])" by (simp add: distinct_map inj_on_def)
  ultimately have h4: "dup_free ?rs" using dup_free_samples by metis
  note t = retained_at_most_50 [of duplicate_cache_parse "Inr (Some duplicate_cache_text)"
      "[sandwich_with_slot 8]" ?st1 ?m ?st1 "store_of []" ?rs]
  from t a1 have c1: "length (elems (sandwiches ?st1)) \<le> 50" by blast
  from t h1 h2 h3 h4 have "\<exists>st'. appends ?rs (store_of []) = Inr st' \<and>
      elems (sandwiches st') = rev (tl ?rs) \<and> length (elems (sandwiches st')) = 50" by blast
  moreover have "tl ?rs = map (sandwich_with_slot \<circ> real) [1..<51]"
    by (simp add: upt_conv_Cons del: upt_Suc)
  ultimately have c2: "\<exists>st'. appends ?rs (store_of []) = Inr st' \<and>
      elems (sandwiches st') = rev (map (sandwich_with_slot \<circ> real) [1..<51]) \<and>
      length (elems (sandwiches st')) = 50" by simp
  from h3 have h3': "list_all (\<lambda>r. has_sandwich r = Inr True) ?rs" by (simp add: list_all_iff)
  from a1 c1 h1 h2 h3' h4 c2 show ?thesis by (simp add: store_of_def)
qed

text \<open>
  Claim C3 does not hold of the code. The first socket closes with code 1006 and the
  component unmounts before the reconnect delay is over: the reconnect timeout is still
  pending after the cleanup. When it fires, a new socket to the other endpoint is created
  with the client's handlers; its error event issues a fallback query and its close
  schedules the next reconnect.
\<close>

theorem reconnect_timer_survives_cleanup:
  "timers (run [Close 0 1006, Unmount] mount_feed) =
     [\<lparr>tid = 2, delay = 3000, repeating = False, action = ConnectTo fallbackWsUrl\<rparr>]
   \<and> websocket (run [Close 0 1006, Unmount, Fire 2] mount_feed) = Some 1
   \<and> sockets (run [Close 0 1006, Unmount, Fire 2] mount_feed) 1 =
       Some \<lparr>sock_url = fallbackWsUrl, onclose_attached = True, close_called = False\<rparr>
   \<and> polls_issued (run [Close 0 1006, Unmount, Fire 2] mount_feed) = 1
   \<and> polls_issued (run [Close 0 1006, Unmount, Fire 2, Error 1] mount_feed) = 2
   \<and> timers (run [Close 0 1006, Unmount, Fire 2, Error 1, Close 1 1006] mount_feed) =
       [\<lparr>tid = 3, delay = 3000, repeating = False, action = ConnectTo primaryWsUrl\<rparr>]"
  by (simp add: feed_eval)




text \<open>
  Claim C5. A live point whose timestamp is at most the timestamp of the last retained point
  leaves the series unchanged; a point with a greater timestamp, or any point when the series
  is empty, is appended at the end; so a series with strictly increasing timestamps keeps
  them through every sequence of live appends and through every answer of the live query.
\<close>

theorem live_append_monotone:
  "(xs \<noteq> [] \<and> t \<le> time (last xs) \<longrightarrow> live_append t b xs = xs)
   \<and> (xs = [] \<or> time (last xs) < t \<longrightarrow> live_append t b xs = xs @ [\<lparr>time = t, balance = b\<rparr>])
   \<and> (ascending ys \<longrightarrow> ascending (live_appends ps ys))
   \<and> (ascending (balanceChartData v) \<longrightarrow>
        ascending (balanceChartData (fetchLatestBalance_done resp v)))"
  using live_append_rejects [of xs t b] live_append_accepts [of xs t b]
    ascending_live_appends [of ys ps] ascending_fetchLatestBalance [of v resp]
  by blast

text \<open>The same on a series of two points: an equal and an older timestamp are rejected.\<close>

theorem live_append_monotone_witness:
  "sample_series \<noteq> [] \<and> (2000::int) \<le> time (last sample_series)
   \<and> live_append 2000 7 sample_series = sample_series
   \<and> time (last sample_series) < 2001
   \<and> live_append 2001 7 sample_series = sample_series @ [\<lparr>time = 2001, balance = 7\<rparr>]
   \<and> ascending sample_series
   \<and> ascending (live_appends [(2000, 7), (1500, 8), (2001, 7)] sample_series)
   \<and> live_appends [(2000, 7), (1500, 8), (2001, 7)] sample_series =
       sample_series @ [\<lparr>time = 2001, balance = 7\<rparr>]"
proof -
  have h1: "sample_series \<noteq> [] \<and> (2000::int) \<le> time (last sample_series)"
    by (simp add: sample_series_def)
  have h2: "sample_series = [] \<or> time (last sample_series) < 2001"
    by (simp add: sample_series_def)
  have h3: "ascending sample_series" by (simp add: sample_series_def ascending_def)
  note t1 = live_append_monotone [of sample_series 2000 7 sample_series
      "[(2000, 7), (1500, 8), (2001, 7)]"]
  note t2 = live_append_monotone [of sample_series 2001 7]
  from t1 h1 have c1: "live_append 2000 7 sample_series = sample_series" by blast
  from t2 h2 have c2: "live_append 2001 7 sample_series =
      sample_series @ [\<lparr>time = 2001, balance = 7\<rparr>]" by blast
  from t1 h3 have c3: "ascending (live_appends [(2000, 7), (1500, 8), (2001, 7)] sample_series)"
    by blast
  have c4: "live_appends [(2000, 7), (1500, 8), (2001, 7)] sample_series =
       sample_series @ [\<lparr>time = 2001, balance = 7\<rparr>]"
    by (simp add: live_append_def sample_series_def)
  from h1 h2 h3 c1 c2 c3 c4 show ?thesis by (simp add: sample_series_def)
qed

text \<open>
  Claim C6. \<^verbatim>\<open>onclose\<close> with code 1000 or 1005 changes nothing. With any other code and
  fewer than 10 attempts made, it adds one to the attempt counter, schedules exactly one
  timeout of 3000 ms that connects to the other endpoint, issues one fallback query, and
  changes nothing else.
\<close>

theorem onclose_classifies:
  "(code = 1000 \<or> code = 1005 \<longrightarrow> onclose url code s = s)
   \<and> (abnormal code \<and> reconnectAttempts s < maxReconnectAttempts \<longrightarrow>
        onclose url code s =
          s\<lparr>reconnectAttempts := Suc (reconnectAttempts s),
            timers := timers s @ [\<lparr>tid = next_timer s, delay = 3000, repeating = False,
                                  action = ConnectTo (alternate url)\<rparr>],
            next_timer := Suc (next_timer s),
            polls_issued := Suc (polls_issued s)\<rparr>)
   \<and> alternate primaryWsUrl = fallbackWsUrl
   \<and> alternate fallbackWsUrl = primaryWsUrl
   \<and> maxReconnectAttempts = 10"
proof (intro conjI impI)
  assume "code = 1000 \<or> code = 1005"
  then show "onclose url code s = s" by (rule onclose_normal)
next
  assume "abnormal code \<and> reconnectAttempts s < maxReconnectAttempts"
  then show "onclose url code s =
          s\<lparr>reconnectAttempts := Suc (reconnectAttempts s),
            timers := timers s @ [\<lparr>tid = next_timer s, delay = 3000, repeating = False,
                                  action = ConnectTo (alternate url)\<rparr>],
            next_timer := Suc (next_timer s),
            polls_issued := Suc (polls_issued s)\<rparr>"
    using onclose_reconnect by blast
qed (simp_all add: alternate_def primaryWsUrl_def fallbackWsUrl_def maxReconnectAttempts_def)

text \<open>The same for the first socket closing with code 1000 and with code 1006.\<close>

theorem onclose_classifies_witness:
  "onclose primaryWsUrl 1000 mount_feed = mount_feed
   \<and> abnormal 1006
   \<and> reconnectAttempts mount_feed < maxReconnectAttempts
   \<and> timers (onclose primaryWsUrl 1006 mount_feed) =
       [\<lparr>tid = 1, delay = 30000, repeating = True, action = FetchFallback\<rparr>,
        \<lparr>tid = 2, delay = 3000, repeating = False, action = ConnectTo fallbackWsUrl\<rparr>]
   \<and> reconnectAttempts (onclose primaryWsUrl 1006 mount_feed) = 1
   \<and> polls_issued (onclose primaryWsUrl 1006 mount_feed) = 1"
proof -
  have h1: "(1000::nat) = 1000 \<or> (1000::nat) = 1005" by simp
  have h2: "abnormal 1006" by (simp add: abnormal_def)
  have h3: "reconnectAttempts mount_feed < maxReconnectAttempts"
    by (simp add: feed_eval)
  note t1 = onclose_classifies [of 1000 primaryWsUrl mount_feed]
  note t2 = onclose_classifies [of 1006 primaryWsUrl mount_feed]
  from t1 h1 have c1: "onclose primaryWsUrl 1000 mount_feed = mount_feed" by blast
  from t2 h2 h3 have c2: "onclose primaryWsUrl 1006 mount_feed =
          mount_feed\<lparr>reconnectAttempts := Suc (reconnectAttempts mount_feed),
            timers := timers mount_feed @ [\<lparr>tid = next_timer mount_feed, delay = 3000,
                                  repeating = False, action = ConnectTo (alternate primaryWsUrl)\<rparr>],
            next_timer := Suc (next_timer mount_feed),
            polls_issued := Suc (polls_issued mount_feed)\<rparr>" by blast
  from t2 have alt: "alternate primaryWsUrl = fallbackWsUrl" by blast
  have m: "timers mount_feed = [\<lparr>tid = 1, delay = 30000, repeating = True, action = FetchFallback\<rparr>]"
    "next_timer mount_feed = 2" "reconnectAttempts mount_feed = 0" "polls_issued mount_feed = 0"
    by (simp_all add: mount_feed_def feed_init_def connectWebSocket_def set_timer_def)
  from c1 h2 h3 show ?thesis unfolding c2 alt m by simp
qed

text \<open>
  Claim C7. \<^verbatim>\<open>getInitialSandwiches\<close> returns a list for every parser and every cache
  content, never an error: the empty list when reading the entry throws, when the entry is
  absent or empty, when its text does not parse, and when it parses to anything but an array;
  the first 50 elements of the array otherwise.
\<close>

theorem load_never_fails:
  "fst (getInitialSandwiches parse entry) =
     (case entry of
        Inl e \<Rightarrow> []
      | Inr None \<Rightarrow> []
      | Inr (Some txt) \<Rightarrow>
          (case parse txt of
             Inl e \<Rightarrow> []
           | Inr (Array xs) \<Rightarrow> if txt = [] then [] else take 50 xs
           | Inr _ \<Rightarrow> []))"
  unfolding getInitialSandwiches_def getInitialSandwiches_try_def
  by (auto split: sum.splits option.splits jsval.splits)

text \<open>The four cases at concrete cache contents.\<close>

theorem load_never_fails_witness:
  "fst (getInitialSandwiches duplicate_cache_parse (Inr None)) = []
   \<and> fst (getInitialSandwiches duplicate_cache_parse (Inl SecurityError)) = []
   \<and> fst (getInitialSandwiches duplicate_cache_parse (Inr (Some ''{oops''))) = []
   \<and> fst (getInitialSandwiches duplicate_cache_parse (Inr (Some duplicate_cache_text))) =
       [sandwich_with_slot 7, sandwich_with_slot 7]"
  using load_never_fails [of duplicate_cache_parse "Inr None"]
    load_never_fails [of duplicate_cache_parse "Inl SecurityError"]
    load_never_fails [of duplicate_cache_parse "Inr (Some ''{oops'')"]
    load_never_fails [of duplicate_cache_parse "Inr (Some duplicate_cache_text)"]
  by (simp add: duplicate_cache_parse_def parse_table_def duplicate_cache_text_def)

text \<open>
  Claim C8. A push message that does not parse, or whose parsed value has no
  \<^verbatim>\<open>data.sandwich\<close>, and a fallback payload that does not parse, are dropped: the handler
  returns, the only change is one more diagnostic, and the retained list and the saved
  arrays are what they were.
\<close>

theorem malformed_input_dropped:
  "(parse msg = Inl e \<or> (parse msg = Inr d \<and> has_sandwich d = Inr False) \<longrightarrow>
      onmessage parse msg st = Inr (log_error st))
   \<and> (parse txt = Inl e' \<and> resultType r = ''vector'' \<and> result r = Some txt # others \<longrightarrow>
        fetchSandwichesFallback_done parse (Resolved r) st = Inr (log_error st))
   \<and> sandwiches (log_error st) = sandwiches st
   \<and> saved (log_error st) = saved st
   \<and> diagnostics (log_error st) = Suc (diagnostics st)"
proof (intro conjI impI)
  assume "parse msg = Inl e \<or> (parse msg = Inr d \<and> has_sandwich d = Inr False)"
  then have "parse msg = Inl e \<or> (\<exists>d. parse msg = Inr d \<and> has_sandwich d \<noteq> Inr True)"
    by auto
  then show "onmessage parse msg st = Inr (log_error st)" by (rule onmessage_malformed)
next
  assume "parse txt = Inl e' \<and> resultType r = ''vector'' \<and> result r = Some txt # others"
  then show "fetchSandwichesFallback_done parse (Resolved r) st = Inr (log_error st)"
    using fallback_malformed by blast
qed (simp_all add: log_error_def)

text \<open>The same for a text that is no JSON and for a message without the payload.\<close>

theorem malformed_input_dropped_witness:
  \<open>sample_parse ''not json'' = Inl SyntaxError
   \<and> onmessage sample_parse ''not json'' (store_of [sandwich_with_slot 7]) =
       Inr (log_error (store_of [sandwich_with_slot 7]))
   \<and> sample_parse ''{"type":"ping"}'' = Inr (Object [(''type'', Str ''ping'')])
   \<and> has_sandwich (Object [(''type'', Str ''ping'')]) = Inr False
   \<and> onmessage sample_parse ''{"type":"ping"}'' (store_of [sandwich_with_slot 7]) =
       Inr (log_error (store_of [sandwich_with_slot 7]))
   \<and> fetchSandwichesFallback_done sample_parse
        (Resolved \<lparr>resultType = ''vector'', result = [Some ''not json'']\<rparr>)
        (store_of [sandwich_with_slot 7]) =
       Inr (log_error (store_of [sandwich_with_slot 7]))
   \<and> elems (sandwiches (log_error (store_of [sandwich_with_slot 7]))) = [sandwich_with_slot 7]\<close>
proof -
  let ?st = "store_of [sandwich_with_slot 7]"
  let ?ping = "Object [(''type'', Str ''ping'')]"
  let ?r = "\<lparr>resultType = ''vector'', result = [Some ''not json'']\<rparr>"
  have p1: "sample_parse ''not json'' = Inl SyntaxError"
    by (simp add: sample_parse_def parse_table_def)
  have p2: \<open>sample_parse ''{"type":"ping"}'' = Inr ?ping\<close>
    by (simp add: sample_parse_def parse_table_def)
  have p3: "has_sandwich ?ping = Inr False" by (simp add: has_sandwich_def)
  have p4: "resultType ?r = ''vector'' \<and> result ?r = Some ''not json'' # []" by simp
  note t1 = malformed_input_dropped [of sample_parse "''not json''" SyntaxError _ ?st
      "''not json''" SyntaxError ?r "[]"]
  note t2 = malformed_input_dropped [of sample_parse \<open>''{"type":"ping"}''\<close> _ ?ping ?st]
  from t1 p1 have c1: "onmessage sample_parse ''not json'' ?st = Inr (log_error ?st)" by blast
  from t2 p2 p3 have c2: \<open>onmessage sample_parse ''{"type":"ping"}'' ?st = Inr (log_error ?st)\<close>
    by blast
  from t1 p1 p4 have c3: "fetchSandwichesFallback_done sample_parse (Resolved ?r) ?st =
      Inr (log_error ?st)" by blast
  from t1 have c4: "sandwiches (log_error ?st) = sandwiches ?st" by blast
  then have c4': "elems (sandwiches (log_error ?st)) = [sandwich_with_slot 7]"
    by (simp add: store_of_def)
  from p1 c1 p2 p3 c2 c3 c4' show ?thesis by blast
qed

text \<open>
  Claim C9. After a run of \<^verbatim>\<open>fetchProfitPerHour\<close> the snapshot maps each of the five labels
  to the value of its own query, a rejected query, a result of another type, an empty result
  and a missing value all giving 0; changing the answer to the query of one label changes no
  other label's value; and while the queries are running the snapshot readers see is the old
  one, replaced by the single assignment that ends the run.
\<close>

theorem rate_snapshot_per_label:
  "profitPerHour (fetchProfitPerHour gw old) =
     (\<lambda>k. if k \<in> set timeRanges then Some (profit_of_response (gw (profit_query k))) else None)
   \<and> (k \<noteq> l \<longrightarrow>
        profitPerHour (fetchProfitPerHour (gw(profit_query l := x)) old) k =
        profitPerHour (fetchProfitPerHour gw old) k)
   \<and> profit_of_response Rejected = 0
   \<and> (resultType r \<noteq> ''vector'' \<or> result r = [] \<or> hd (result r) = None \<longrightarrow>
        profit_of_response (Resolved r) = 0)
   \<and> (n \<le> length timeRanges \<longrightarrow>
        profitPerHour (((rate_step gw) ^^ n) (rate_start old)) = old)
   \<and> settled (fetchProfitPerHour gw old)"
proof (intro conjI impI)
  show "profitPerHour (fetchProfitPerHour gw old) =
     (\<lambda>k. if k \<in> set timeRanges then Some (profit_of_response (gw (profit_query k))) else None)"
    by (rule fetchProfitPerHour_result)
next
  assume "k \<noteq> l"
  then show "profitPerHour (fetchProfitPerHour (gw(profit_query l := x)) old) k =
        profitPerHour (fetchProfitPerHour gw old) k"
    by (rule fetchProfitPerHour_other_label)
next
  show "profit_of_response Rejected = 0" by (simp add: profit_of_response_def)
next
  assume "resultType r \<noteq> ''vector'' \<or> result r = [] \<or> hd (result r) = None"
  then show "profit_of_response (Resolved r) = 0"
    unfolding profit_of_response_def by auto
next
  assume "n \<le> length timeRanges"
  then show "profitPerHour (((rate_step gw) ^^ n) (rate_start old)) = old"
    by (rule fetchProfitPerHour_unseen)
next
  have len: "length timeRanges \<le> length (remaining (rate_start old))"
    unfolding rate_start_def by simp
  from rate_steps [OF len, of gw] have "remaining (((rate_step gw) ^^ (length timeRanges)) (rate_start old)) = []"
    unfolding rate_start_def by simp
  then show "settled (fetchProfitPerHour gw old)"
    unfolding fetchProfitPerHour_def by (simp add: rate_step_final)
qed

text \<open>The same for a gateway that fails on one label and is empty on another.\<close>

theorem rate_snapshot_per_label_witness:
  "profitPerHour (fetchProfitPerHour sample_gateway Map.empty) ''1h'' = Some 2.5
   \<and> profitPerHour (fetchProfitPerHour sample_gateway Map.empty) ''3h'' = Some 0
   \<and> profitPerHour (fetchProfitPerHour sample_gateway Map.empty) ''6h'' = Some 0
   \<and> profitPerHour (fetchProfitPerHour sample_gateway Map.empty) ''24h'' = Some 40
   \<and> ''1h'' \<noteq> ''3h''
   \<and> profitPerHour (fetchProfitPerHour
         (sample_gateway(profit_query ''3h'' := Resolved \<lparr>resultType = ''vector'', result = [Some 9]\<rparr>))
         Map.empty) ''1h'' = Some 2.5
   \<and> result \<lparr>resultType = ''vector'', result = ([] :: real option list)\<rparr> = []
   \<and> profit_of_response (Resolved \<lparr>resultType = ''vector'', result = []\<rparr>) = 0
   \<and> (3::nat) \<le> length timeRanges
   \<and> profitPerHour (((rate_step sample_gateway) ^^ 3) (rate_start Map.empty)) = Map.empty"
proof -
  let ?r = "\<lparr>resultType = ''vector'', result = ([] :: real option list)\<rparr>"
  let ?x = "Resolved \<lparr>resultType = ''vector'', result = [Some (9::real)]\<rparr>"
  note t = rate_snapshot_per_label [of sample_gateway Map.empty "''1h''" "''3h''" ?x ?r 3]
  have h1: "''1h'' \<noteq> ''3h''" by simp
  have h2: "resultType ?r \<noteq> ''vector'' \<or> result ?r = [] \<or> hd (result ?r) = None" by simp
  have h3: "(3::nat) \<le> length timeRanges" by (simp add: timeRanges_def)
  from t have eq: "profitPerHour (fetchProfitPerHour sample_gateway Map.empty) =
     (\<lambda>k. if k \<in> set timeRanges then Some (profit_of_response (sample_gateway (profit_query k)))
          else None)" by blast
  have c1: "profitPerHour (fetchProfitPerHour sample_gateway Map.empty) ''1h'' = Some 2.5"
    unfolding eq by (simp add: timeRanges_def sample_gateway_def profit_of_response_def)
  have c2: "profitPerHour (fetchProfitPerHour sample_gateway Map.empty) ''3h'' = Some 0"
    unfolding eq
    by (simp add: timeRanges_def sample_gateway_def profit_of_response_def profit_query_def)
  have c3: "profitPerHour (fetchProfitPerHour sample_gateway Map.empty) ''6h'' = Some 0"
    unfolding eq
    by (simp add: timeRanges_def sample_gateway_def profit_of_response_def profit_query_def)
  have c4: "profitPerHour (fetchProfitPerHour sample_gateway Map.empty) ''24h'' = Some 40"
    unfolding eq
    by (simp add: timeRanges_def sample_gateway_def profit_of_response_def profit_query_def)
  from t h1 c1 have c5: "profitPerHour (fetchProfitPerHour
         (sample_gateway(profit_query ''3h'' := ?x)) Map.empty) ''1h'' = Some 2.5" by simp
  from t h2 have c6: "profit_of_response (Resolved ?r) = 0" by blast
  from t h3 have c7: "profitPerHour (((rate_step sample_gateway) ^^ 3) (rate_start Map.empty)) = Map.empty"
    by blast
  from c1 c2 c3 c4 h1 c5 c6 h3 c7 show ?thesis by simp
qed

text \<open>
  Claim C10. Appending a well-shaped record whose slot is the slot of a retained record (the
  records in front of that one being readable) returns the store itself: the same array
  with the same identity, nothing saved, nothing logged.
\<close>

theorem duplicate_append_changes_nothing:
  assumes "has_sandwich r = Inr True"
    and "i < length (elems (sandwiches st))"
    and "slot_match (elems (sandwiches st) ! i) r = Inr True"
    and "\<forall>j<i. has_slot (elems (sandwiches st) ! j)"
  shows "updateSandwiches r st = Inr st"
proof -
  from findIndex_first_match [OF assms(2,3,4)] obtain k where
    "findIndex_slot r (elems (sandwiches st)) = Inr k" "k \<noteq> - 1" by blast
  from updateSandwiches_duplicate [OF this] assms(1) show ?thesis by auto
qed

text \<open>The same for a second append of slot 100.\<close>

theorem duplicate_append_changes_nothing_witness:
  "has_sandwich (sandwich_with_slot 100) = Inr True
   \<and> (1::nat) < length (elems (sandwiches (store_of [sandwich_with_slot 101, sandwich_with_slot 100])))
   \<and> slot_match (elems (sandwiches (store_of [sandwich_with_slot 101, sandwich_with_slot 100])) ! 1)
        (sandwich_with_slot 100) = Inr True
   \<and> has_slot (elems (sandwiches (store_of [sandwich_with_slot 101, sandwich_with_slot 100])) ! 0)
   \<and> updateSandwiches (sandwich_with_slot 100)
        (store_of [sandwich_with_slot 101, sandwich_with_slot 100]) =
       Inr (store_of [sandwich_with_slot 101, sandwich_with_slot 100])
   \<and> saved (store_of [sandwich_with_slot 101, sandwich_with_slot 100]) =
       [[sandwich_with_slot 101, sandwich_with_slot 100]]"
proof -
  let ?st = "store_of [sandwich_with_slot 101, sandwich_with_slot 100]"
  have h1: "has_sandwich (sandwich_with_slot 100) = Inr True" by (rule has_sandwich_sample)
  have h2: "1 < length (elems (sandwiches ?st))" by (simp add: store_of_def)
  have h3: "slot_match (elems (sandwiches ?st) ! 1) (sandwich_with_slot 100) = Inr True"
    by (simp add: store_of_def slot_match_sample)
  have h0: "has_slot (elems (sandwiches ?st) ! 0)"
    by (simp add: store_of_def has_sandwich_has_slot has_sandwich_sample)
  then have h4: "\<forall>j<1. has_slot (elems (sandwiches ?st) ! j)" by simp
  from duplicate_append_changes_nothing [OF h1 h2 h3 h4]
  have c: "updateSandwiches (sandwich_with_slot 100) ?st = Inr ?st" .
  have s: "saved ?st = [[sandwich_with_slot 101, sandwich_with_slot 100]]"
    by (simp add: store_of_def)
  from h1 h2 h3 h0 c s show ?thesis by blast
qed

end
